theory Spec2Isabelle
  imports
    Main
    "HOL-Library.Word"
    "HOL-Library.AList"
    "HOL-Library.Char_ord"
    "HOL-Library.List_Lexorder"
    "HOL-Library.Signed_Division"
begin

section \<open>The realtime socket adapter and the session gate of the Nakama Go client\<close>

text \<open>
  The development follows two source files: the WebSocket adapter (type
  \<open>WebSocketAdapter\<close> with \<open>IsOpen\<close>, \<open>Close\<close>, \<open>Connect\<close>, \<open>Send\<close>, \<open>listen\<close>,
  \<open>handleEncodedData\<close>, \<open>decodeReceivedData\<close>) and \<open>client.go\<close> (\<open>AddGroupUsers\<close>,
  \<open>AddFriends\<close>, \<open>RefreshSession\<close>).

  Modelling decisions, all of them about what lies outside the two files:
  \<^item> A Go map is a reference to an object. The envelope that a caller hands to \<open>Send\<close>
    is a value \<open>hval\<close> over a store of map objects (\<open>heap\<close>): a map value is the address
    of its object, so one object may sit under several keys, and a write through one
    of them is seen through the others. \<open>Send\<close> returns the store as it leaves it.
  \<^item> A value that is only read (printed, marshalled, or just built by
    \<open>json.Unmarshal\<close>, which shares nothing) is a tree \<open>gval\<close>, with a map as an
    association list read with \<open>map_of\<close> and written with \<open>AList.update\<close>.
  \<^item> \<open>encoding/json\<close> is modelled on JSON documents (\<open>json\<close>), not on their text: a frame
    on the wire is the document that \<open>json.Marshal\<close> prints and \<open>json.Unmarshal\<close> reads.
    Numbers are integers and are kept exact. Strings are byte strings; both directions
    replace bytes that are not UTF-8 by U+FFFD.
  \<^item> \<open>encoding/base64\<close> (\<open>StdEncoding\<close>), \<open>fmt.Sprintf("%v", _)\<close> and \<open>url.QueryEscape\<close>
    are written out as the Go standard library documents them.
  \<^item> The transport (dialling, reading, writing), the REST calls and the clock are inputs
    of the functions that use them; every call made and every callback fired is
    recorded in a list of effects, in program order.
  \<^item> The mutex is not modelled: each operation is one atomic step. What is printed to
    standard output is left out; a print that never returns is not.
\<close>

subsection \<open>Bytes and base64 (\<open>base64.StdEncoding\<close>)\<close>

type_synonym byte = "8 word"

text \<open>The alphabet \<open>A-Z a-z 0-9 + /\<close> as a function of the 6-bit value.\<close>

definition encodeStd :: "nat \<Rightarrow> char" where
  "encodeStd n =
     (if n < 26 then char_of (65 + n)
      else if n < 52 then char_of (71 + n)
      else if n < 62 then char_of (n - 4)
      else if n = 62 then CHR ''+'' else CHR ''/'')"

text \<open>The decode table: the 6-bit value of an alphabet character, \<open>None\<close> elsewhere.\<close>

definition decodeMap :: "char \<Rightarrow> nat option" where
  "decodeMap c =
     (let k = (of_char c :: nat) in
      if 65 \<le> k \<and> k \<le> 90 then Some (k - 65)
      else if 97 \<le> k \<and> k \<le> 122 then Some (k - 71)
      else if 48 \<le> k \<and> k \<le> 57 then Some (k + 4)
      else if k = 43 then Some 62
      else if k = 47 then Some 63
      else None)"

text \<open>
  \<open>EncodeToString\<close>: three bytes become four characters; a last group of two or one
  bytes is padded with \<open>=\<close>.
\<close>

fun EncodeToString :: "byte list \<Rightarrow> string" where
  "EncodeToString (a # b # c # rest) =
     (let val = unat a * 65536 + unat b * 256 + unat c in
      encodeStd (val div 262144) # encodeStd (val div 4096 mod 64) #
      encodeStd (val div 64 mod 64) # encodeStd (val mod 64) # EncodeToString rest)"
| "EncodeToString [a, b] =
     (let val = unat a * 65536 + unat b * 256 in
      [encodeStd (val div 262144), encodeStd (val div 4096 mod 64),
       encodeStd (val div 64 mod 64), CHR ''=''])"
| "EncodeToString [a] =
     (let val = unat a * 65536 in
      [encodeStd (val div 262144), encodeStd (val div 4096 mod 64), CHR ''='', CHR ''=''])"
| "EncodeToString [] = []"

text \<open>
  Decoding reads groups of four characters. Only the last group may end in one or two
  padding characters; anything else that is not in the alphabet, and a last group that
  is too short, is an error (\<open>None\<close>).
\<close>

fun decodeQuanta :: "string \<Rightarrow> byte list option" where
  "decodeQuanta [] = Some []"
| "decodeQuanta (c0 # c1 # c2 # c3 # rest) =
     (case (decodeMap c0, decodeMap c1) of
        (Some s0, Some s1) \<Rightarrow>
          (if rest = [] \<and> c2 = CHR ''='' then
             (if c3 = CHR ''='' then
                Some [of_nat ((s0 * 262144 + s1 * 4096) div 65536)]
              else None)
           else
             (case decodeMap c2 of
                None \<Rightarrow> None
              | Some s2 \<Rightarrow>
                  (if rest = [] \<and> c3 = CHR ''='' then
                     (let val = s0 * 262144 + s1 * 4096 + s2 * 64 in
                      Some [of_nat (val div 65536), of_nat (val div 256 mod 256)])
                   else
                     (case decodeMap c3 of
                        None \<Rightarrow> None
                      | Some s3 \<Rightarrow>
                          (let val = s0 * 262144 + s1 * 4096 + s2 * 64 + s3 in
                           map_option
                             (\<lambda>bs. of_nat (val div 65536) # of_nat (val div 256 mod 256) #
                                   of_nat (val mod 256) # bs)
                             (decodeQuanta rest))))))
      | _ \<Rightarrow> None)"
| "decodeQuanta _ = None"

text \<open>\<open>DecodeString\<close> ignores carriage returns and line feeds.\<close>

definition DecodeString :: "string \<Rightarrow> byte list option" where
  "DecodeString s = decodeQuanta (filter (\<lambda>c. c \<noteq> CHR 0x0D \<and> c \<noteq> CHR 0x0A) s)"

text \<open>The conversion \<open>[]byte(v)\<close> of a Go string.\<close>

definition bytes_of :: "string \<Rightarrow> byte list" where
  "bytes_of s = map of_char s"

subsection \<open>Decimal numerals\<close>

definition digit_char :: "nat \<Rightarrow> char" where
  "digit_char d = char_of (48 + d)"


fun FormatUint :: "nat \<Rightarrow> string" where
  "FormatUint n =
     (if n < 10 then [digit_char n] else FormatUint (n div 10) @ [digit_char (n mod 10)])"

declare FormatUint.simps [simp del]

text \<open>What \<open>%v\<close> prints for an integer: a minus sign for a negative one, no leading zeros.\<close>

definition FormatInt :: "int \<Rightarrow> string" where
  "FormatInt i = (if i < 0 then CHR ''-'' # FormatUint (nat (- i)) else FormatUint (nat i))"




subsection \<open>UTF-8 as \<open>encoding/json\<close> sees it\<close>

text \<open>
  A string is a sequence of bytes. \<open>first\<close> is the table of package \<open>utf8\<close> for a lead
  byte: the number of continuation bytes and the range of the first of them (the ranges
  shut out overlong forms, surrogates and code points above U+10FFFF).
  \<open>rune_tail c cs\<close> is that number when \<open>c\<close> followed by \<open>cs\<close> starts with a well-formed
  encoding. \<open>coerceUTF8\<close> is what both \<open>json.Marshal\<close> and \<open>json.Unmarshal\<close> do to a
  string: every byte that starts no well-formed encoding becomes U+FFFD (the bytes EF
  BF BD), everything else is kept.
\<close>

definition in_range :: "char \<Rightarrow> nat \<Rightarrow> nat \<Rightarrow> bool" where
  "in_range c lo hi = (lo \<le> of_char c \<and> (of_char c :: nat) \<le> hi)"

definition first :: "nat \<Rightarrow> (nat \<times> nat \<times> nat) option" where
  "first b0 =
     (if b0 < 0x80 then Some (0, 0x00, 0x7F)
      else if 0xC2 \<le> b0 \<and> b0 \<le> 0xDF then Some (1, 0x80, 0xBF)
      else if b0 = 0xE0 then Some (2, 0xA0, 0xBF)
      else if 0xE1 \<le> b0 \<and> b0 \<le> 0xEC then Some (2, 0x80, 0xBF)
      else if b0 = 0xED then Some (2, 0x80, 0x9F)
      else if 0xEE \<le> b0 \<and> b0 \<le> 0xEF then Some (2, 0x80, 0xBF)
      else if b0 = 0xF0 then Some (3, 0x90, 0xBF)
      else if 0xF1 \<le> b0 \<and> b0 \<le> 0xF3 then Some (3, 0x80, 0xBF)
      else if b0 = 0xF4 then Some (3, 0x80, 0x8F)
      else None)"

definition rune_tail :: "char \<Rightarrow> string \<Rightarrow> nat option" where
  "rune_tail c cs =
     (case first (of_char c) of
        None \<Rightarrow> None
      | Some (k, lo, hi) \<Rightarrow>
          (case k of
             0 \<Rightarrow> Some 0
           | Suc j \<Rightarrow>
               if Suc j \<le> length cs \<and> in_range (hd cs) lo hi \<and>
                  list_all (\<lambda>x. in_range x 0x80 0xBF) (take j (tl cs))
               then Some (Suc j) else None))"

definition replacement :: string where
  "replacement = [CHR 0xEF, CHR 0xBF, CHR 0xBD]"

fun coerceUTF8 :: "string \<Rightarrow> string" where
  "coerceUTF8 [] = []"
| "coerceUTF8 (c # cs) =
     (case rune_tail c cs of
        None \<Rightarrow> replacement @ coerceUTF8 cs
      | Some k \<Rightarrow> c # take k cs @ coerceUTF8 (drop k cs))"

definition ascii :: "string \<Rightarrow> bool" where
  "ascii s = list_all (\<lambda>c. (of_char c :: nat) < 0x80) s"

subsection \<open>JSON documents and Go values\<close>

datatype json =
    JNull
  | JBool bool
  | JNum int
  | JStr string
  | JArr "json list"
  | JObj "(string \<times> json) list"

text \<open>
  The dynamic types the adapter tells apart are \<open>map[string]interface{}\<close>, \<open>[]byte\<close>
  and \<open>string\<close>. A value of any other type reaches only \<open>fmt.Sprintf\<close> and
  \<open>json.Marshal\<close>: \<open>GOther\<close> holds what these two make of it, its \<open>%v\<close> text and its JSON
  encoding (\<open>None\<close> for a type \<open>json.Marshal\<close> rejects, such as a channel). \<open>GInt\<close> is a
  value of one of Go's integer types.
\<close>

datatype gval =
    GNil
  | GBool bool
  | GInt int
  | GStr string
  | GBytes "byte list"
  | GList "gval list"
  | GMap "(string \<times> gval) list"
  | GOther string "json option"

definition join_sp :: "string list \<Rightarrow> string" where
  "join_sp xs = (case xs of [] \<Rightarrow> [] | y # ys \<Rightarrow> y @ concat (map (\<lambda>s. CHR '' '' # s) ys))"

text \<open>
  \<open>fmt.Sprintf("%v", v)\<close>: a string prints as itself, an integer in decimal, a byte slice
  and a slice as their elements in brackets, a map as \<open>map[k:v ...]\<close> with the keys in
  increasing order.
\<close>

primrec Sprintf_v :: "gval \<Rightarrow> string" where
  "Sprintf_v GNil = ''<nil>''"
| "Sprintf_v (GBool b) = (if b then ''true'' else ''false'')"
| "Sprintf_v (GInt n) = FormatInt n"
| "Sprintf_v (GStr s) = s"
| "Sprintf_v (GBytes bs) = ''['' @ join_sp (map (\<lambda>b. FormatUint (unat b)) bs) @ '']''"
| "Sprintf_v (GList vs) = ''['' @ join_sp (map Sprintf_v vs) @ '']''"
| "Sprintf_v (GMap kvs) =
     ''map['' @
     join_sp (map (\<lambda>(k, s). k @ '':'' @ s) (sort_key fst (map (map_prod id Sprintf_v) kvs))) @
     '']''"
| "Sprintf_v (GOther txt enc) = txt"

definition collect_fields :: "('k \<times> 'a option) list \<Rightarrow> ('k \<times> 'a) list option" where
  "collect_fields kvs = those (map (\<lambda>(k, j). map_option (Pair k) j) kvs)"

text \<open>
  \<open>json.Marshal\<close>: a string is written with its bytes coerced to UTF-8, a byte slice as
  a base64 string, a map as an object with the keys sorted and then coerced like any
  string; the result is \<open>None\<close> when some value inside cannot be encoded. A nil byte
  slice, which prints as \<open>null\<close>, is not told apart from an empty one.
\<close>

primrec json_Marshal :: "gval \<Rightarrow> json option" where
  "json_Marshal GNil = Some JNull"
| "json_Marshal (GBool b) = Some (JBool b)"
| "json_Marshal (GInt n) = Some (JNum n)"
| "json_Marshal (GStr s) = Some (JStr (coerceUTF8 s))"
| "json_Marshal (GBytes bs) = Some (JStr (EncodeToString bs))"
| "json_Marshal (GList vs) = map_option JArr (those (map json_Marshal vs))"
| "json_Marshal (GMap kvs) =
     map_option (\<lambda>js. JObj (map (apfst coerceUTF8) (sort_key fst js)))
       (collect_fields (map (map_prod id json_Marshal) kvs))"
| "json_Marshal (GOther txt enc) = enc"

text \<open>
  The members of an object go into a new map one after the other, each key coerced to
  UTF-8: of two members with the same key the later one stays.
\<close>

definition store_members :: "(string \<times> 'a) list \<Rightarrow> (string \<times> 'a) list" where
  "store_members kvs = foldl (\<lambda>m (k, v). AList.update (coerceUTF8 k) v m) [] kvs"

text \<open>
  \<open>json.Unmarshal\<close> into an \<open>interface{}\<close>. Go holds a number as a \<open>float64\<close>; the model
  keeps the integer, which is the same value as long as the \<open>float64\<close> is exact.
\<close>

primrec json_Unmarshal :: "json \<Rightarrow> gval" where
  "json_Unmarshal JNull = GNil"
| "json_Unmarshal (JBool b) = GBool b"
| "json_Unmarshal (JNum n) = GInt n"
| "json_Unmarshal (JStr s) = GStr (coerceUTF8 s)"
| "json_Unmarshal (JArr js) = GList (map json_Unmarshal js)"
| "json_Unmarshal (JObj kvs) = GMap (store_members (map (map_prod id json_Unmarshal) kvs))"

text \<open>
  The documents on which the model of \<open>json.Unmarshal\<close> is the decoder itself: every
  number is an integer that a \<open>float64\<close> holds exactly, and arrays and objects are
  nested no deeper than the decoder allows (10000).
\<close>

primrec json_depth :: "json \<Rightarrow> nat" where
  "json_depth JNull = 0"
| "json_depth (JBool b) = 0"
| "json_depth (JNum n) = 0"
| "json_depth (JStr s) = 0"
| "json_depth (JArr js) = Suc (foldr max (map json_depth js) 0)"
| "json_depth (JObj kvs) = Suc (foldr max (map snd (map (map_prod id json_depth) kvs)) 0)"

primrec json_numbers :: "json \<Rightarrow> int list" where
  "json_numbers JNull = []"
| "json_numbers (JBool b) = []"
| "json_numbers (JNum n) = [n]"
| "json_numbers (JStr s) = []"
| "json_numbers (JArr js) = concat (map json_numbers js)"
| "json_numbers (JObj kvs) = concat (map snd (map (map_prod id json_numbers) kvs))"

definition decodes_exactly :: "json \<Rightarrow> bool" where
  "decodes_exactly d =
     (json_depth d \<le> 10000 \<and> list_all (\<lambda>n. \<bar>n\<bar> \<le> 2 ^ 53) (json_numbers d))"

text \<open>Reading a field of a map value or of an object, and a field of a field.\<close>

definition gfield :: "gval \<Rightarrow> string \<Rightarrow> gval option" where
  "gfield v k = (case v of GMap kvs \<Rightarrow> map_of kvs k | _ \<Rightarrow> None)"

definition gpath :: "gval \<Rightarrow> string \<Rightarrow> string \<Rightarrow> gval option" where
  "gpath v k1 k2 = Option.bind (gfield v k1) (\<lambda>sub. gfield sub k2)"

definition jfield :: "json \<Rightarrow> string \<Rightarrow> json option" where
  "jfield d k = (case d of JObj kvs \<Rightarrow> map_of kvs k | _ \<Rightarrow> None)"

definition jpath :: "json \<Rightarrow> string \<Rightarrow> string \<Rightarrow> json option" where
  "jpath d k1 k2 = Option.bind (jfield d k1) (\<lambda>sub. jfield sub k2)"

definition jpaths :: "json list \<Rightarrow> string \<Rightarrow> string \<Rightarrow> json option list" where
  "jpaths ds k1 k2 = map (\<lambda>d. jpath d k1 k2) ds"

subsection \<open>The caller's envelope: maps as shared objects\<close>

text \<open>
  A \<open>map[string]interface{}\<close> that the caller built is an object in a store, and a map
  value (\<open>HMap\<close>) is the address of its object. An object is an association list read
  with \<open>map_of\<close>, so an entry hidden by an earlier one with the same key is not part
  of it. An address that the store does not hold is a map with no entries.
  \<open>HOther\<close> is a value of any other type, as \<open>GOther\<close>; it is taken not to lead to a map
  of the store.
\<close>

type_synonym addr = nat

datatype hval =
    HNil
  | HBool bool
  | HInt int
  | HStr string
  | HBytes "byte list"
  | HList "hval list"
  | HMap addr
  | HOther string "json option"

type_synonym heap = "(addr \<times> (string \<times> hval) list) list"

definition deref :: "heap \<Rightarrow> addr \<Rightarrow> (string \<times> hval) list" where
  "deref h a = (case map_of h a of Some obj \<Rightarrow> obj | None \<Rightarrow> [])"

text \<open>The assignment \<open>m[k] = v\<close> to the map at address \<open>a\<close>.\<close>

definition assign :: "heap \<Rightarrow> addr \<Rightarrow> string \<Rightarrow> hval \<Rightarrow> heap" where
  "assign h a k v = AList.update a (AList.update k v (deref h a)) h"

text \<open>
  \<open>plain v\<close> is the tree of a value that holds no map, which is the same in every
  store.
\<close>

primrec plain :: "hval \<Rightarrow> gval option" where
  "plain HNil = Some GNil"
| "plain (HBool b) = Some (GBool b)"
| "plain (HInt n) = Some (GInt n)"
| "plain (HStr s) = Some (GStr s)"
| "plain (HBytes bs) = Some (GBytes bs)"
| "plain (HList vs) = map_option GList (those (map plain vs))"
| "plain (HMap a) = None"
| "plain (HOther txt enc) = Some (GOther txt enc)"

text \<open>
  \<open>snapshot h n v\<close> reads the value \<open>v\<close> in the store \<open>h\<close> as a tree, following at most
  \<open>n\<close> maps one inside the other. This is how \<open>fmt\<close> and \<open>json.Marshal\<close> walk a value.
  With \<open>n\<close> above the number of objects of the store the result is \<open>None\<close> exactly when
  the walk comes back to a map it is inside of: there \<open>fmt\<close> recurses until the stack
  overflows, which ends the program.
\<close>

fun snapshot :: "heap \<Rightarrow> nat \<Rightarrow> hval \<Rightarrow> gval option" where
  "snapshot h n HNil = Some GNil"
| "snapshot h n (HBool b) = Some (GBool b)"
| "snapshot h n (HInt i) = Some (GInt i)"
| "snapshot h n (HStr s) = Some (GStr s)"
| "snapshot h n (HBytes bs) = Some (GBytes bs)"
| "snapshot h n (HList vs) = map_option GList (those (map (snapshot h n) vs))"
| "snapshot h 0 (HMap a) = None"
| "snapshot h (Suc n) (HMap a) =
     map_option GMap
       (collect_fields (map (\<lambda>(k, v). (k, snapshot h n v)) (AList.clearjunk (deref h a))))"
| "snapshot h n (HOther txt enc) = Some (GOther txt enc)"

definition read_value :: "heap \<Rightarrow> hval \<Rightarrow> gval option" where
  "read_value h v = snapshot h (Suc (length h)) v"

subsection \<open>The codec: \<open>handleEncodedData\<close> and \<open>decodeReceivedData\<close>\<close>

text \<open>
  \<open>handleEncodedData(msg, field)\<close>, with \<open>msg\<close> the address of the caller's map: when
  \<open>msg[field]\<close> is a map, an \<open>op_code\<close> in it is replaced by its \<open>%v\<close> text and then a
  \<open>data\<close> that is a byte slice or a string by its base64 text. Any other \<open>data\<close>
  stays. Both assignments go to the object that \<open>msg[field]\<close> refers to. The result is
  \<open>None\<close> when printing the \<open>op_code\<close> does not return.
\<close>

definition handleEncodedData :: "heap \<Rightarrow> addr \<Rightarrow> string \<Rightarrow> heap option" where
  "handleEncodedData h msg field =
     (case map_of (deref h msg) field of
        Some (HMap sendMap) \<Rightarrow>
          (case (case map_of (deref h sendMap) ''op_code'' of
                   Some opCode \<Rightarrow>
                     map_option (\<lambda>t. assign h sendMap ''op_code'' (HStr (Sprintf_v t)))
                       (read_value h opCode)
                 | None \<Rightarrow> Some h) of
             None \<Rightarrow> None
           | Some h1 \<Rightarrow>
               Some (case map_of (deref h1 sendMap) ''data'' of
                       Some (HBytes v) \<Rightarrow> assign h1 sendMap ''data'' (HStr (EncodeToString v))
                     | Some (HStr v) \<Rightarrow>
                         assign h1 sendMap ''data'' (HStr (EncodeToString (bytes_of v)))
                     | _ \<Rightarrow> h1))
      | _ \<Rightarrow> Some h)"

text \<open>
  \<open>decodeReceivedData(msg, field)\<close>: when \<open>msg[field]\<close> is a map whose \<open>data\<close> is a string
  that is valid base64, the string is replaced by the decoded bytes. The receive loop
  calls it on the map that \<open>json.Unmarshal\<close> has just built, in which no two keys hold
  the same object: writing into the map under \<open>field\<close> is writing the new map back
  under \<open>field\<close>.
\<close>

definition decodeReceivedData :: "(string \<times> gval) list \<Rightarrow> string \<Rightarrow> (string \<times> gval) list" where
  "decodeReceivedData msg field =
     (case map_of msg field of
        Some (GMap dataMap) \<Rightarrow>
          (case map_of dataMap ''data'' of
             Some (GStr encodedStr) \<Rightarrow>
               (case DecodeString encodedStr of
                  Some decodedBytes \<Rightarrow>
                    AList.update field (GMap (AList.update ''data'' (GBytes decodedBytes) dataMap)) msg
                | None \<Rightarrow> msg)
           | _ \<Rightarrow> msg)
      | _ \<Rightarrow> msg)"

subsection \<open>Errors and effects\<close>

datatype error =
    ErrNotConnected
  | ErrDial string
  | ErrWrite string
  | ErrRead string
  | CloseError nat string
  | ErrJsonSyntax
  | ErrJsonType
  | ErrJsonUnsupported
  | ErrNullSession
  | ErrApi string
  | PanicNilPointer

text \<open>
  \<open>ErrNotConnected\<close> is \<open>fmt.Errorf("WebSocket is not connected")\<close>, \<open>CloseError code text\<close>
  is a \<open>*websocket.CloseError\<close>, \<open>ErrNullSession\<close> is
  \<open>fmt.Errorf("cannot refresh a null session")\<close>, and \<open>PanicNilPointer\<close> stands for the
  run-time panic of a method call or field access through a nil pointer.
\<close>

text \<open>
  \<open>websocket.IsUnexpectedCloseError(err, expectedCodes...)\<close>: true for a close error
  whose code is not among the expected ones, false for any other error.
\<close>

definition IsUnexpectedCloseError :: "error \<Rightarrow> nat list \<Rightarrow> bool" where
  "IsUnexpectedCloseError err expectedCodes =
     (case err of CloseError code txt \<Rightarrow> code \<notin> set expectedCodes | _ \<Rightarrow> False)"

type_synonym conn = nat

datatype effect =
    Dial string
  | Conn_Close conn
  | Conn_Write conn json
  | Go_listen
  | Call_onOpen
  | Call_onMessage json
  | Call_onError error
  | Call_onClose

subsection \<open>The adapter\<close>

text \<open>
  The handle is \<open>None\<close> for a nil \<open>socket\<close>. A callback field is \<open>True\<close> when a function
  is stored in it; calling it is the effect \<open>Call_on...\<close>.
\<close>

record WebSocketAdapter =
  socket :: "conn option"
  onClose :: bool
  onError :: bool
  onMessage :: bool
  onOpen :: bool

definition NewWebSocketAdapter :: WebSocketAdapter where
  "NewWebSocketAdapter =
     \<lparr>socket = None, onClose = False, onError = False, onMessage = False, onOpen = False\<rparr>"

definition IsOpen :: "WebSocketAdapter \<Rightarrow> bool" where
  "IsOpen w = (socket w \<noteq> None)"

definition Close :: "WebSocketAdapter \<Rightarrow> WebSocketAdapter \<times> effect list" where
  "Close w =
     (case socket w of
        Some c \<Rightarrow> (w\<lparr>socket := None\<rparr>, [Conn_Close c])
      | None \<Rightarrow> (w, []))"

definition hex_digit :: "nat \<Rightarrow> char" where
  "hex_digit n = (if n < 10 then char_of (48 + n) else char_of (55 + n))"

definition shouldEscape :: "char \<Rightarrow> bool" where
  "shouldEscape c =
     (let k = (of_char c :: nat) in
      \<not> ((65 \<le> k \<and> k \<le> 90) \<or> (97 \<le> k \<and> k \<le> 122) \<or> (48 \<le> k \<and> k \<le> 57) \<or>
         c = CHR ''-'' \<or> c = CHR ''_'' \<or> c = CHR ''.'' \<or> c = CHR ''~''))"

text \<open>
  \<open>url.QueryEscape\<close>: letters, digits and \<open>- _ . ~\<close> stay, a space becomes \<open>+\<close>, every
  other byte becomes \<open>%XX\<close>.
\<close>

definition QueryEscape :: "string \<Rightarrow> string" where
  "QueryEscape s =
     concat (map (\<lambda>c. if c = CHR '' '' then ''+''
                       else if shouldEscape c then
                         [CHR ''%'', hex_digit (of_char c div 16), hex_digit (of_char c mod 16)]
                       else [c]) s)"

record connect_result =
  connect_err :: "error option"
  connect_adapter :: WebSocketAdapter
  connect_effects :: "effect list"

text \<open>
  \<open>Connect\<close>. The URL is \<open>fmt.Sprintf("%s%s:%s/ws?lang=en&status=%s&token=%s", ...)\<close>,
  status and token escaped. The dialler \<open>dial\<close> answers with a connection or an error. The assignment
  \<open>w.socket, _, err = Dial(...)\<close> stores what the dialler returns before the error is
  looked at, and a failed dial returns a nil connection. There is no test of the old
  value of \<open>w.socket\<close>.
\<close>

definition connect_url :: "string \<Rightarrow> string \<Rightarrow> string \<Rightarrow> bool \<Rightarrow> string \<Rightarrow> string" where
  "connect_url scheme host port createStatus token =
     scheme @ host @ '':'' @ port @ ''/ws?lang=en&status='' @
     QueryEscape (if createStatus then ''true'' else ''false'') @
     ''&token='' @ QueryEscape token"

definition Connect ::
  "(string \<Rightarrow> error + conn) \<Rightarrow> WebSocketAdapter \<Rightarrow> string \<Rightarrow> string \<Rightarrow> string \<Rightarrow> bool \<Rightarrow> string \<Rightarrow>
   connect_result" where
  "Connect dial w scheme host port createStatus token =
     (let urlStr = connect_url scheme host port createStatus token
      in case dial urlStr of
           Inl err \<Rightarrow>
             \<lparr>connect_err = Some err, connect_adapter = w\<lparr>socket := None\<rparr>,
              connect_effects = [Dial urlStr]\<rparr>
         | Inr c \<Rightarrow>
             \<lparr>connect_err = None, connect_adapter = w\<lparr>socket := Some c\<rparr>,
              connect_effects =
                [Dial urlStr] @ (if onOpen w then [Call_onOpen] else []) @ [Go_listen]\<rparr>)"

record send_result =
  send_err :: "error option"
  send_adapter :: WebSocketAdapter
  send_heap :: heap
  send_effects :: "effect list"

text \<open>
  \<open>Send\<close>, with the caller's store \<open>h\<close>. \<open>write c frame\<close> is the outcome of
  \<open>WriteMessage\<close> on the connection. \<open>send_heap\<close> is the store after the call: the two
  calls of \<open>handleEncodedData\<close> write into the caller's own maps. After them the message
  is printed with \<open>fmt.Printf\<close> and then marshalled. The result is \<open>None\<close> when one of
  the prints does not return.
\<close>

definition Send ::
  "(conn \<Rightarrow> json \<Rightarrow> error option) \<Rightarrow> WebSocketAdapter \<Rightarrow> heap \<Rightarrow> hval \<Rightarrow>
   send_result option" where
  "Send write w h message =
     (case socket w of
        None \<Rightarrow>
          Some \<lparr>send_err = Some ErrNotConnected, send_adapter = w, send_heap = h,
                send_effects = []\<rparr>
      | Some c \<Rightarrow>
          (case (case message of
                   HMap msgMap \<Rightarrow>
                     Option.bind (handleEncodedData h msgMap ''match_data_send'')
                       (\<lambda>h1. handleEncodedData h1 msgMap ''party_data_send'')
                 | _ \<Rightarrow> Some h) of
             None \<Rightarrow> None
           | Some h2 \<Rightarrow>
               (case read_value h2 message of
                  None \<Rightarrow> None
                | Some printed \<Rightarrow>
                    (case json_Marshal printed of
                       None \<Rightarrow>
                         Some \<lparr>send_err = Some ErrJsonUnsupported, send_adapter = w,
                               send_heap = h2, send_effects = []\<rparr>
                     | Some msgBytes \<Rightarrow>
                         Some \<lparr>send_err = write c msgBytes, send_adapter = w,
                               send_heap = h2, send_effects = [Conn_Write c msgBytes]\<rparr>))))"

subsection \<open>The receive loop\<close>

text \<open>
  What \<open>ReadMessage\<close> returns to the loop, one event per call: a frame (text that is a
  JSON document, or text that is not), a read error, or a read error that arrives after
  another goroutine has called \<open>Close()\<close> on the adapter.
\<close>

datatype frame = Malformed | Document json

datatype read_event = Received frame | Failed error | Closed_locally error

datatype loop_status = Blocked | Terminated | Panicked

text \<open>
  \<open>json.Unmarshal(message, &decodedMessage)\<close> with \<open>decodedMessage\<close> a nil
  \<open>map[string]interface{}\<close>: an object fills a new map, \<open>null\<close> leaves the map nil
  (\<open>Inr None\<close>), any other document is a type error, and text that is no JSON document
  is a syntax error.
\<close>

definition Unmarshal_map :: "frame \<Rightarrow> error + (string \<times> gval) list option" where
  "Unmarshal_map fr =
     (case fr of
        Malformed \<Rightarrow> Inl ErrJsonSyntax
      | Document JNull \<Rightarrow> Inr None
      | Document (JObj kvs) \<Rightarrow>
          Inr (Some (store_members (map (map_prod id json_Unmarshal) kvs)))
      | Document _ \<Rightarrow> Inl ErrJsonType)"

text \<open>\<open>json.Marshal\<close> of a map variable: a nil map prints as \<open>null\<close>.\<close>

definition Marshal_map :: "(string \<times> gval) list option \<Rightarrow> json option" where
  "Marshal_map m = (case m of None \<Rightarrow> Some JNull | Some kvs \<Rightarrow> json_Marshal (GMap kvs))"

text \<open>
  The body of the loop for a frame that was read. After an unmarshalling error the
  error callback is called and the loop goes on (\<open>continue\<close>). Otherwise the two inbound
  kinds are decoded, and the decoded map is marshalled again: the message callback
  takes the bytes of a JSON text. Reading a key of a nil map finds nothing.
\<close>

definition listen_frame :: "WebSocketAdapter \<Rightarrow> frame \<Rightarrow> effect list" where
  "listen_frame w fr =
     (case Unmarshal_map fr of
        Inl err \<Rightarrow> (if onError w then [Call_onError err] else [])
      | Inr decodedMessage \<Rightarrow>
          (let decoded1 = map_option (\<lambda>m. decodeReceivedData m ''match_data'') decodedMessage;
               decoded2 = map_option (\<lambda>m. decodeReceivedData m ''party_data'') decoded1
           in if onMessage w then
                (case Marshal_map decoded2 of
                   Some messageBytes \<Rightarrow> [Call_onMessage messageBytes]
                 | None \<Rightarrow> (if onError w then [Call_onError ErrJsonUnsupported] else []))
              else []))"

text \<open>
  \<open>listen\<close>. With no event left the loop is blocked in \<open>ReadMessage\<close>. A read through a
  nil \<open>socket\<close> panics. On a read error with the handle still held: the error callback,
  the close callback for a close error (the call names no expected code), then
  \<open>Close()\<close>, then \<open>break\<close>. On a read error after a local \<open>Close()\<close> the handle is nil
  and the loop breaks without firing anything.
\<close>

fun listen :: "WebSocketAdapter \<Rightarrow> read_event list \<Rightarrow> WebSocketAdapter \<times> effect list \<times> loop_status" where
  "listen w [] = (w, [], Blocked)"
| "listen w (ev # rest) =
     (case socket w of
        None \<Rightarrow> (w, [], Panicked)
      | Some c \<Rightarrow>
          (case ev of
             Failed err \<Rightarrow>
               (let (w1, es) = Close w
                in (w1,
                    (if onError w then [Call_onError err] else []) @
                    (if IsUnexpectedCloseError err [] \<and> onClose w then [Call_onClose] else []) @
                    es,
                    Terminated))
           | Closed_locally err \<Rightarrow>
               (let (w1, es) = Close w in (w1, es, Terminated))
           | Received fr \<Rightarrow>
               (let (w1, es, st) = listen w rest in (w1, listen_frame w fr @ es, st))))"

subsection \<open>The client: sessions and the refresh gate\<close>

type_synonym int64 = "64 word"

text \<open>
  Modelled from the spec: the type \<open>Session\<close> and its methods \<open>IsExpired\<close> and \<open>Update\<close>
  are not among the source files. The record has the fields that \<open>client.go\<close> reads and
  writes (an access token, a refresh token, the created flag, and the three timestamps
  of the spec's data model); the two methods are fields of the environment below, so
  that every theorem holds for any implementation of them.
\<close>

record Session =
  Token :: string
  RefreshToken :: string
  Created :: bool
  CreatedAt :: int64
  ExpiresAt :: "int64 option"
  RefreshExpiresAt :: "int64 option"

record ApiSession =
  api_Created :: bool
  api_RefreshToken :: string
  api_Token :: string

record ApiSessionRefreshRequest =
  req_Token :: string
  req_Vars :: "(string \<times> string) list"

record Client =
  ExpiredTimespanMs :: int64
  ServerKey :: string
  Host :: string
  Port :: string
  UseSSL :: bool
  Timeout :: int
  AutoRefreshSession :: bool

text \<open>
  What the client calls and does not define: the clock, the two methods of \<open>Session\<close>,
  and the REST calls of \<open>NakamaApi\<close> (a response may be nil).
\<close>

record environment =
  UnixMilli :: int64
  IsExpired :: "Session \<Rightarrow> int64 \<Rightarrow> bool"
  Update :: "Session \<Rightarrow> string \<Rightarrow> string \<Rightarrow> Session"
  api_SessionRefresh :: "string \<Rightarrow> string \<Rightarrow> ApiSessionRefreshRequest \<Rightarrow> error + ApiSession"
  api_AddGroupUsers :: "string \<Rightarrow> string \<Rightarrow> string list \<Rightarrow> error + json option"
  api_AddFriends :: "string \<Rightarrow> string list \<Rightarrow> string list \<Rightarrow> error + json option"

text \<open>
  Modelled from the spec: \<open>Session.IsExpired\<close>, the access token's expiry has passed at
  the given time (in seconds). Used only to run the gate on concrete sessions.
\<close>

definition IsExpired_spec :: "Session \<Rightarrow> int64 \<Rightarrow> bool" where
  "IsExpired_spec s t = (case ExpiresAt s of Some e \<Rightarrow> sint e < sint t | None \<Rightarrow> False)"

text \<open>
  Modelled from the spec: \<open>Session.Update\<close> replaces both tokens in place. Used only to
  run the gate on concrete sessions.
\<close>

definition Update_spec :: "Session \<Rightarrow> string \<Rightarrow> string \<Rightarrow> Session" where
  "Update_spec s tok rtok = s\<lparr>Token := tok, RefreshToken := rtok\<rparr>"

datatype call =
    Log_warning string
  | SessionRefresh_call string string ApiSessionRefreshRequest
  | AddGroupUsers_call string string "string list"
  | AddFriends_call string "string list" "string list"

record 'a outcome =
  ret :: "error + 'a"
  session_after :: "Session option"
  calls :: "call list"

text \<open>
  \<open>RefreshSession\<close>. \<open>ret\<close> is the pair that is returned (\<open>Inl\<close> for a non-nil error),
  \<open>session_after\<close> is the caller's session object after the call.
\<close>

definition RefreshSession ::
  "environment \<Rightarrow> Client \<Rightarrow> Session option \<Rightarrow> (string \<times> string) list \<Rightarrow> Session outcome" where
  "RefreshSession env c session vars =
     (case session of
        None \<Rightarrow> \<lparr>ret = Inl ErrNullSession, session_after = None, calls = []\<rparr>
      | Some s \<Rightarrow>
          (let warn1 =
                 (case ExpiresAt s of
                    Some e \<Rightarrow>
                      (if sint (e - CreatedAt s) < 70
                       then [Log_warning ''Session lifetime too short''] else [])
                  | None \<Rightarrow> []);
               warn2 =
                 (case RefreshExpiresAt s of
                    Some e \<Rightarrow>
                      (if sint (e - CreatedAt s) < 3700
                       then [Log_warning ''Session refresh lifetime too short''] else [])
                  | None \<Rightarrow> []);
               request = \<lparr>req_Token = RefreshToken s, req_Vars = vars\<rparr>;
               cs = warn1 @ warn2 @ [SessionRefresh_call (ServerKey c) [] request]
           in case api_SessionRefresh env (ServerKey c) [] request of
                Inl err \<Rightarrow> \<lparr>ret = Inl err, session_after = Some s, calls = cs\<rparr>
              | Inr apiSession \<Rightarrow>
                  (let s1 = Update env s (api_Token apiSession) (api_RefreshToken apiSession)
                   in \<lparr>ret = Inr s1, session_after = Some s1, calls = cs\<rparr>)))"

text \<open>
  The time handed to \<open>IsExpired\<close>: \<open>(time.Now().UnixMilli() + c.ExpiredTimespanMs) / 1000\<close>
  on 64-bit signed integers, the sum wrapping and the quotient truncated towards zero.
\<close>

definition gate_time :: "environment \<Rightarrow> Client \<Rightarrow> int64" where
  "gate_time env c = word_of_int (sint (UnixMilli env + ExpiredTimespanMs c) sdiv 1000)"

definition needs_refresh :: "environment \<Rightarrow> Client \<Rightarrow> Session \<Rightarrow> bool" where
  "needs_refresh env c s =
     (AutoRefreshSession c \<and> RefreshToken s \<noteq> [] \<and> IsExpired env s (gate_time env c))"

definition AddGroupUsers ::
  "environment \<Rightarrow> Client \<Rightarrow> Session option \<Rightarrow> string \<Rightarrow> string list \<Rightarrow> bool outcome" where
  "AddGroupUsers env c session groupId ids =
     (case session of
        None \<Rightarrow> \<lparr>ret = Inl PanicNilPointer, session_after = None, calls = []\<rparr>
      | Some s \<Rightarrow>
          (let r = (if needs_refresh env c s then RefreshSession env c (Some s) []
                    else \<lparr>ret = Inr s, session_after = Some s, calls = []\<rparr>)
           in case ret r of
                Inl err \<Rightarrow> \<lparr>ret = Inl err, session_after = session_after r, calls = calls r\<rparr>
              | Inr s1 \<Rightarrow>
                  (let cs = calls r @ [AddGroupUsers_call (Token s1) groupId ids]
                   in case api_AddGroupUsers env (Token s1) groupId ids of
                        Inl err \<Rightarrow> \<lparr>ret = Inl err, session_after = Some s1, calls = cs\<rparr>
                      | Inr response \<Rightarrow>
                          \<lparr>ret = Inr (response \<noteq> None), session_after = Some s1, calls = cs\<rparr>)))"

definition AddFriends ::
  "environment \<Rightarrow> Client \<Rightarrow> Session option \<Rightarrow> string list \<Rightarrow> string list \<Rightarrow> bool outcome" where
  "AddFriends env c session ids usernames =
     (case session of
        None \<Rightarrow> \<lparr>ret = Inl PanicNilPointer, session_after = None, calls = []\<rparr>
      | Some s \<Rightarrow>
          (let r = (if needs_refresh env c s then RefreshSession env c (Some s) []
                    else \<lparr>ret = Inr s, session_after = Some s, calls = []\<rparr>)
           in case ret r of
                Inl err \<Rightarrow> \<lparr>ret = Inl err, session_after = session_after r, calls = calls r\<rparr>
              | Inr s1 \<Rightarrow>
                  (let cs = calls r @ [AddFriends_call (Token s1) ids usernames]
                   in case api_AddFriends env (Token s1) ids usernames of
                        Inl err \<Rightarrow> \<lparr>ret = Inl err, session_after = Some s1, calls = cs\<rparr>
                      | Inr response \<Rightarrow>
                          \<lparr>ret = Inr (response \<noteq> None), session_after = Some s1, calls = cs\<rparr>)))"

text \<open>The REST requests among the calls, without the log lines.\<close>

fun is_request :: "call \<Rightarrow> bool" where
  "is_request (Log_warning txt) = False"
| "is_request _ = True"

definition requests :: "call list \<Rightarrow> call list" where
  "requests cs = filter is_request cs"

subsection \<open>A loopback transport and sample inputs\<close>

text \<open>
  An echo transport: the frame that \<open>Send\<close> writes is the next frame that the receive
  loop reads. \<open>delivered\<close> are the documents handed to the message callback.
\<close>

definition write_succeeds :: "conn \<Rightarrow> json \<Rightarrow> error option" where
  "write_succeeds c d = None"

definition write_fails :: "conn \<Rightarrow> json \<Rightarrow> error option" where
  "write_fails c d = Some (ErrWrite ''broken pipe'')"

definition wire_frames :: "effect list \<Rightarrow> json list" where
  "wire_frames es = concat (map (\<lambda>e. case e of Conn_Write c d \<Rightarrow> [d] | _ \<Rightarrow> []) es)"

definition delivered :: "effect list \<Rightarrow> json list" where
  "delivered es = concat (map (\<lambda>e. case e of Call_onMessage d \<Rightarrow> [d] | _ \<Rightarrow> []) es)"

definition echo :: "WebSocketAdapter \<Rightarrow> effect list \<Rightarrow> json list" where
  "echo w es =
     delivered (fst (snd (listen w (map (\<lambda>d. Received (Document d)) (wire_frames es)))))"

definition loopback ::
  "(conn \<Rightarrow> json \<Rightarrow> error option) \<Rightarrow> WebSocketAdapter \<Rightarrow> heap \<Rightarrow> hval \<Rightarrow> json list" where
  "loopback write w h message =
     (case Send write w h message of None \<Rightarrow> [] | Some r \<Rightarrow> echo w (send_effects r))"

definition connected_adapter :: WebSocketAdapter where
  "connected_adapter =
     \<lparr>socket = Some 1, onClose = True, onError = True, onMessage = True, onOpen = True\<rparr>"

definition dial_accepts :: "conn \<Rightarrow> string \<Rightarrow> error + conn" where
  "dial_accepts c urlStr = Inr c"

definition dial_refuses :: "string \<Rightarrow> error + conn" where
  "dial_refuses urlStr = Inl (ErrDial ''connection refused'')"

text \<open>
  The envelope of the spec's scenario, op code 7 and the bytes DE AD BE EF: the
  caller's map is the object at address 0, the map under \<open>match_data_send\<close> the
  object at address 1.
\<close>

definition scenario_envelope :: hval where
  "scenario_envelope = HMap 0"

definition scenario_heap :: heap where
  "scenario_heap =
     [(0, [(''match_data_send'', HMap 1)]),
      (1, [(''op_code'', HInt 7), (''data'', HBytes [0xDE, 0xAD, 0xBE, 0xEF])])]"

text \<open>An envelope of the other send kind, with the op code and the payload given as text.\<close>

definition text_envelope :: hval where
  "text_envelope = HMap 0"

definition text_heap :: heap where
  "text_heap =
     [(0, [(''party_data_send'', HMap 1)]),
      (1, [(''party_id'', HStr ''p1''), (''op_code'', HStr ''12''), (''data'', HStr ''hi'')])]"

text \<open>An envelope that holds one and the same map under both send kinds.\<close>

definition shared_envelope :: hval where
  "shared_envelope = HMap 0"

definition shared_heap :: heap where
  "shared_heap =
     [(0, [(''match_data_send'', HMap 1), (''party_data_send'', HMap 1)]),
      (1, [(''op_code'', HInt 7), (''data'', HBytes [0xDE, 0xAD, 0xBE, 0xEF])])]"

definition sample_client :: Client where
  "sample_client =
     \<lparr>ExpiredTimespanMs = 300000, ServerKey = ''defaultkey'', Host = ''127.0.0.1'',
      Port = ''7350'', UseSSL = False, Timeout = 7000, AutoRefreshSession = True\<rparr>"

definition sample_session :: Session where
  "sample_session =
     \<lparr>Token = ''old-token'', RefreshToken = ''old-refresh'', Created = False,
      CreatedAt = 1000, ExpiresAt = Some 8200, RefreshExpiresAt = Some 9000\<rparr>"

definition refresh_fails :: "string \<Rightarrow> string \<Rightarrow> ApiSessionRefreshRequest \<Rightarrow> error + ApiSession" where
  "refresh_fails key pass req = Inl (ErrApi ''401'')"

definition refresh_succeeds :: "string \<Rightarrow> string \<Rightarrow> ApiSessionRefreshRequest \<Rightarrow> error + ApiSession" where
  "refresh_succeeds key pass req =
     Inr \<lparr>api_Created = False, api_RefreshToken = ''new-refresh'', api_Token = ''new-token''\<rparr>"

definition group_call_ok :: "string \<Rightarrow> string \<Rightarrow> string list \<Rightarrow> error + json option" where
  "group_call_ok tok groupId ids = Inr (Some (JObj []))"

definition friends_call_ok :: "string \<Rightarrow> string list \<Rightarrow> string list \<Rightarrow> error + json option" where
  "friends_call_ok tok ids usernames = Inr (Some (JObj []))"

text \<open>Two environments at time 10000 s, one where the refresh request fails.\<close>

definition env_refresh_fails :: environment where
  "env_refresh_fails =
     \<lparr>UnixMilli = 10000000, IsExpired = IsExpired_spec, Update = Update_spec,
      api_SessionRefresh = refresh_fails, api_AddGroupUsers = group_call_ok,
      api_AddFriends = friends_call_ok\<rparr>"

definition env_refresh_succeeds :: environment where
  "env_refresh_succeeds =
     \<lparr>UnixMilli = 10000000, IsExpired = IsExpired_spec, Update = Update_spec,
      api_SessionRefresh = refresh_succeeds, api_AddGroupUsers = group_call_ok,
      api_AddFriends = friends_call_ok\<rparr>"

section \<open>Properties\<close>

subsection \<open>Base64: decoding undoes encoding\<close>

lemma decodeMap_encodeStd: "n < 64 \<Longrightarrow> decodeMap (encodeStd n) = Some n"
  by (auto simp: decodeMap_def encodeStd_def Let_def)

lemma decodeMap_encodeStd_defined: "decodeMap (encodeStd n) \<noteq> None"
  by (auto simp: decodeMap_def encodeStd_def Let_def)

lemma decodeMap_special:
  "decodeMap (CHR ''='') = None" "decodeMap (CHR 0x0D) = None" "decodeMap (CHR 0x0A) = None"
  by (simp_all add: decodeMap_def)

lemma encodeStd_not_special:
  "encodeStd n \<noteq> CHR ''=''" "encodeStd n \<noteq> CHR 0x0D" "encodeStd n \<noteq> CHR 0x0A"
  using decodeMap_encodeStd_defined [of n] decodeMap_special by metis+

lemma filter_EncodeToString:
  "filter (\<lambda>c. c \<noteq> CHR 0x0D \<and> c \<noteq> CHR 0x0A) (EncodeToString p) = EncodeToString p"
  by (induction p rule: EncodeToString.induct) (simp_all add: Let_def encodeStd_not_special)

text \<open>The four 6-bit digits of a number put together again give the number.\<close>

lemma sextets_recompose:
  fixes v :: nat
  shows "(v div 262144) * 262144 + (v div 4096 mod 64) * 4096 + (v div 64 mod 64) * 64 +
         v mod 64 = v"
proof -
  define q1 where "q1 = v div 64"
  define q2 where "q2 = q1 div 64"
  define q3 where "q3 = q2 div 64"
  have a: "v div 4096 = q2" and b: "v div 262144 = q3"
    by (simp_all add: q1_def q2_def q3_def div_mult2_eq [symmetric])
  have 1: "v = q1 * 64 + v mod 64" by (simp add: q1_def)
  have 2: "q1 = q2 * 64 + q1 mod 64" by (simp add: q2_def)
  have 3: "q2 = q3 * 64 + q2 mod 64" by (simp add: q3_def)
  have "q3 * 262144 + (q2 mod 64) * 4096 + (q1 mod 64) * 64 + v mod 64 = v"
    using 1 2 3 by linarith
  then show ?thesis by (simp add: a b q1_def [symmetric])
qed

lemma octets_split:
  fixes a b c :: nat
  assumes "b < 256" "c < 256"
  shows "(a * 65536 + b * 256 + c) div 65536 = a"
    "(a * 65536 + b * 256 + c) div 256 mod 256 = b"
    "(a * 65536 + b * 256 + c) mod 256 = c"
proof -
  have "b * 256 + c < 65536" using assms by simp
  then show "(a * 65536 + b * 256 + c) div 65536 = a" by (simp add: add.assoc)
  have e: "a * 65536 + b * 256 + c = (a * 256 + b) * 256 + c" by simp
  have "((a * 256 + b) * 256 + c) div 256 = a * 256 + b" using assms by simp
  then have "(a * 65536 + b * 256 + c) div 256 = a * 256 + b" by (simp only: e)
  then show "(a * 65536 + b * 256 + c) div 256 mod 256 = b" using assms by simp
  have "((a * 256 + b) * 256 + c) mod 256 = c mod 256" by (rule mod_mult_self3)
  then show "(a * 65536 + b * 256 + c) mod 256 = c" using assms(2) by (simp only: e mod_less)
qed

lemma sextet_bounds:
  fixes a b c :: nat
  assumes "a < 256" "b < 256" "c < 256"
  shows "(a * 65536 + b * 256 + c) div 262144 < 64"
  using assms by (simp add: less_mult_imp_div_less)

lemma quantum_roundtrip:
  fixes a b c :: byte
  defines "v \<equiv> unat a * 65536 + unat b * 256 + unat c"
  shows "decodeMap (encodeStd (v div 262144)) = Some (v div 262144)"
    and "decodeMap (encodeStd (v div 4096 mod 64)) = Some (v div 4096 mod 64)"
    and "decodeMap (encodeStd (v div 64 mod 64)) = Some (v div 64 mod 64)"
    and "decodeMap (encodeStd (v mod 64)) = Some (v mod 64)"
    and "(v div 262144) * 262144 + (v div 4096 mod 64) * 4096 + (v div 64 mod 64) * 64 +
         v mod 64 = v"
    and "of_nat (v div 65536) = a"
    and "of_nat (v div 256 mod 256) = b"
    and "of_nat (v mod 256) = c"
proof -
  have bnd: "unat a < 256" "unat b < 256" "unat c < 256"
    using unsigned_less [of a] unsigned_less [of b] unsigned_less [of c] by simp_all
  show "decodeMap (encodeStd (v div 262144)) = Some (v div 262144)"
    using sextet_bounds [OF bnd] by (simp add: decodeMap_encodeStd v_def)
  show "decodeMap (encodeStd (v div 4096 mod 64)) = Some (v div 4096 mod 64)"
    "decodeMap (encodeStd (v div 64 mod 64)) = Some (v div 64 mod 64)"
    "decodeMap (encodeStd (v mod 64)) = Some (v mod 64)"
    by (simp_all add: decodeMap_encodeStd)
  show "(v div 262144) * 262144 + (v div 4096 mod 64) * 4096 + (v div 64 mod 64) * 64 +
        v mod 64 = v"
    by (rule sextets_recompose)
  show "of_nat (v div 65536) = a" "of_nat (v div 256 mod 256) = b" "of_nat (v mod 256) = c"
    using octets_split [OF bnd(2,3), of "unat a"] by (simp_all add: v_def)
qed

lemma decodeQuanta_EncodeToString: "decodeQuanta (EncodeToString p) = Some p"
proof (induction p rule: EncodeToString.induct)
  case (1 a b c rest)
  note q = quantum_roundtrip [of a b c]
  show ?case
    using 1 by (simp add: Let_def q(1-4) encodeStd_not_special q(5) q(6-8))
next
  case (2 a b)
  note q = quantum_roundtrip [of a b 0, simplified]
  have z: "(unat a * 65536 + unat b * 256) mod 64 = 0"
  proof -
    have "unat a * 65536 + unat b * 256 = (unat a * 1024 + unat b * 4) * 64" by simp
    then show ?thesis by (simp only: mod_mult_self2_is_0)
  qed
  show ?case
    using q(5) by (simp add: Let_def q(1-3) encodeStd_not_special z q(6,7))
next
  case (3 a)
  note q = quantum_roundtrip [of a 0 0, simplified]
  have z: "(unat a * 65536) mod 64 = 0" "(unat a * 65536) div 64 mod 64 = 0"
  proof -
    have e: "unat a * 65536 = (unat a * 1024) * 64" by simp
    show "(unat a * 65536) mod 64 = 0" by (simp only: e mod_mult_self2_is_0)
    have "(unat a * 65536) div 64 = (unat a * 16) * 64" by simp
    then show "(unat a * 65536) div 64 mod 64 = 0" by (simp only: mod_mult_self2_is_0)
  qed
  show ?case
    using q(5) by (simp add: Let_def q(1,2) encodeStd_not_special z q(6))
next
  case 4
  then show ?case by simp
qed

lemma DecodeString_EncodeToString: "DecodeString (EncodeToString p) = Some p"
  by (simp add: DecodeString_def filter_EncodeToString decodeQuanta_EncodeToString)

subsection \<open>Decimal numerals: reading undoes printing\<close>









subsection \<open>UTF-8 coercion\<close>

lemma rune_tail_le: "rune_tail c cs = Some k \<Longrightarrow> k \<le> length cs"
  by (auto simp: rune_tail_def split: option.splits nat.splits if_splits)

lemma first_ascii: "b0 < 0x80 \<Longrightarrow> first b0 = Some (0, 0x00, 0x7F)"
  by (simp add: first_def)

lemma first_zero: "first b0 = Some (0, lo, hi) \<Longrightarrow> b0 < 0x80"
  by (simp add: first_def split: if_splits)

lemma rune_tail_ascii: "(of_char c :: nat) < 0x80 \<Longrightarrow> rune_tail c cs = Some 0"
  by (simp add: rune_tail_def first_ascii)

lemma rune_tail_0_ascii:
  assumes "rune_tail c cs = Some 0"
  shows "(of_char c :: nat) < 0x80"
proof -
  obtain k lo hi where f: "first (of_char c) = Some (k, lo, hi)"
    using assms by (auto simp: rune_tail_def split: option.splits)
  have "k = 0" using assms by (simp add: rune_tail_def f split: nat.splits if_splits)
  then show ?thesis using f first_zero by blast
qed

lemma coerceUTF8_ascii: "ascii s \<Longrightarrow> coerceUTF8 s = s"
  by (induction s) (auto simp: ascii_def rune_tail_ascii)

lemma ascii_coerceUTF8_D: "ascii (coerceUTF8 s) \<Longrightarrow> ascii s"
proof (induction s rule: coerceUTF8.induct)
  case 1
  then show ?case by simp
next
  case (2 c cs)
  show ?case
  proof (cases "rune_tail c cs")
    case None
    then show ?thesis using "2.prems" by (simp add: ascii_def replacement_def)
  next
    case (Some k)
    then have c: "(of_char c :: nat) < 0x80" using "2.prems" by (simp add: ascii_def)
    then have k: "rune_tail c cs = Some 0" by (rule rune_tail_ascii)
    have "ascii (coerceUTF8 cs)" using "2.prems" by (simp add: k ascii_def)
    then have "ascii cs" using "2.IH"(2) [OF k] by simp
    then show ?thesis using c by (simp add: ascii_def)
  qed
qed

lemma coerceUTF8_eq_ascii: "coerceUTF8 k = k0 \<Longrightarrow> ascii k0 \<Longrightarrow> k = k0"
  using ascii_coerceUTF8_D [of k] coerceUTF8_ascii [of k] by auto

lemma rune_tail_prefix:
  assumes "rune_tail c cs = Some k"
  shows "rune_tail c (take k cs @ r) = Some k"
proof -
  obtain k0 lo hi where f: "first (of_char c) = Some (k0, lo, hi)"
    using assms by (auto simp: rune_tail_def split: option.splits)
  show ?thesis
  proof (cases k0)
    case 0
    then show ?thesis using assms by (simp add: rune_tail_def f)
  next
    case (Suc j)
    then have k: "k = Suc j" and c1: "Suc j \<le> length cs" and c2: "in_range (hd cs) lo hi"
      and c3: "list_all (\<lambda>x. in_range x 0x80 0xBF) (take j (tl cs))"
      using assms by (auto simp: rune_tail_def f split: if_splits)
    obtain x xs where cs: "cs = x # xs" using c1 by (cases cs) auto
    have j: "j \<le> length xs" using c1 cs by simp
    show ?thesis using c2 c3 j by (simp add: rune_tail_def f Suc k cs)
  qed
qed

lemma coerceUTF8_valid_prefix:
  assumes "rune_tail c cs = Some k"
  shows "coerceUTF8 (c # take k cs @ r) = c # take k cs @ coerceUTF8 r"
  using rune_tail_prefix [OF assms, of r] rune_tail_le [OF assms] by simp

lemma rune_tail_replacement: "rune_tail (CHR 0xEF) (CHR 0xBF # CHR 0xBD # r) = Some 2"
  by (simp add: rune_tail_def first_def in_range_def)

lemma coerceUTF8_replacement: "coerceUTF8 (replacement @ r) = replacement @ coerceUTF8 r"
  by (simp add: replacement_def rune_tail_replacement)

lemma coerceUTF8_idem: "coerceUTF8 (coerceUTF8 s) = coerceUTF8 s"
proof (induction s rule: coerceUTF8.induct)
  case 1
  then show ?case by simp
next
  case (2 c cs)
  show ?case
  proof (cases "rune_tail c cs")
    case None
    then show ?thesis using "2.IH"(1) by (simp add: coerceUTF8_replacement)
  next
    case (Some k)
    have "coerceUTF8 (c # take k cs @ coerceUTF8 (drop k cs)) =
        c # take k cs @ coerceUTF8 (coerceUTF8 (drop k cs))"
      by (rule coerceUTF8_valid_prefix [OF Some])
    then show ?thesis using Some "2.IH"(2) [OF Some] by simp
  qed
qed

subsection \<open>Connection state\<close>

text \<open>
  C6. \<open>Send\<close> on an adapter that holds no handle (a new adapter, or one that was
  closed) returns the not-connected error at once: nothing is written, the adapter is
  as it was, and so are the caller's maps.
\<close>

theorem Send_not_connected:
  assumes "socket w = None"
  shows "Send write w h message =
           Some \<lparr>send_err = Some ErrNotConnected, send_adapter = w, send_heap = h,
                 send_effects = []\<rparr>"
  using assms by (simp add: Send_def)

theorem Send_not_connected_witness:
  "socket (fst (Close connected_adapter)) = None \<and>
   socket NewWebSocketAdapter = None \<and>
   Send write_succeeds NewWebSocketAdapter scenario_heap scenario_envelope =
     Some \<lparr>send_err = Some ErrNotConnected, send_adapter = NewWebSocketAdapter,
           send_heap = scenario_heap, send_effects = []\<rparr> \<and>
   Send write_succeeds (fst (Close connected_adapter)) scenario_heap scenario_envelope =
     Some \<lparr>send_err = Some ErrNotConnected, send_adapter = fst (Close connected_adapter),
           send_heap = scenario_heap, send_effects = []\<rparr> \<and>
   wire_frames [] = []"
proof -
  have a: "socket NewWebSocketAdapter = None" by (simp add: NewWebSocketAdapter_def)
  have b: "socket (fst (Close connected_adapter)) = None"
    by (simp add: Close_def connected_adapter_def)
  show ?thesis
    using a b Send_not_connected [OF a, of write_succeeds scenario_heap scenario_envelope]
      Send_not_connected [OF b, of write_succeeds scenario_heap scenario_envelope]
    by (simp add: wire_frames_def)
qed

text \<open>
  C7. \<open>Close\<close> is idempotent: a second \<open>Close\<close> changes nothing and has no effect, after
  \<open>Close\<close> the handle is cleared, and \<open>Close\<close> never calls the close callback. \<open>Close\<close>
  returns no error: it has no error result.
\<close>

theorem Close_idempotent:
  "Close (fst (Close w)) = (fst (Close w), []) \<and>
   socket (fst (Close w)) = None \<and>
   Call_onClose \<notin> set (snd (Close w))"
  by (simp add: Close_def split: option.splits)

text \<open>
  C8. \<open>IsOpen\<close> is true exactly when a handle is held, in every state of the adapter:
  false for a new adapter, true after a \<open>Connect\<close> that returned no error, false after
  \<open>Close\<close>, and false after the receive loop has met a read failure.
\<close>

theorem IsOpen_iff_handle:
  "(IsOpen w \<longleftrightarrow> socket w \<noteq> None) \<and>
   \<not> IsOpen NewWebSocketAdapter \<and>
   (connect_err (Connect dial w scheme host port createStatus token) = None \<longrightarrow>
      IsOpen (connect_adapter (Connect dial w scheme host port createStatus token))) \<and>
   \<not> IsOpen (fst (Close w)) \<and>
   \<not> IsOpen (fst (listen w (Failed err # rest)))"
  by (auto simp: IsOpen_def NewWebSocketAdapter_def Connect_def Close_def Let_def
      split: option.splits sum.splits)

theorem IsOpen_iff_handle_witness:
  "connect_err (Connect (dial_accepts 2) NewWebSocketAdapter ''ws://'' ''127.0.0.1'' ''7350''
     True ''t'') = None \<and>
   IsOpen (connect_adapter (Connect (dial_accepts 2) NewWebSocketAdapter ''ws://'' ''127.0.0.1''
     ''7350'' True ''t'')) \<and>
   \<not> IsOpen (fst (listen connected_adapter [Failed (CloseError 1006 ''unexpected EOF'')]))"
proof -
  have "connect_err (Connect (dial_accepts 2) NewWebSocketAdapter ''ws://'' ''127.0.0.1''
      ''7350'' True ''t'') = None"
    by (simp add: Connect_def dial_accepts_def)
  then show ?thesis
    using IsOpen_iff_handle [of NewWebSocketAdapter "dial_accepts 2" "''ws://''"
        "''127.0.0.1''" "''7350''" True "''t''" "CloseError 1006 ''unexpected EOF''" "[]"]
      IsOpen_iff_handle [of connected_adapter "dial_accepts 2" "''ws://''"
        "''127.0.0.1''" "''7350''" True "''t''" "CloseError 1006 ''unexpected EOF''" "[]"]
    by simp
qed

text \<open>
  C3, as the spec has it: \<open>Connect\<close> on an adapter that holds a handle fails and keeps
  the handle. It does not: with a dial that succeeds, \<open>Connect\<close> on an adapter holding
  connection 1 returns no error, and the adapter then holds connection 2.
\<close>

theorem Connect_while_connected_counterexample:
  "socket connected_adapter = Some 1 \<and>
   connect_err (Connect (dial_accepts 2) connected_adapter ''ws://'' ''127.0.0.1'' ''7350''
     True ''t'') = None \<and>
   socket (connect_adapter (Connect (dial_accepts 2) connected_adapter ''ws://'' ''127.0.0.1''
     ''7350'' True ''t'')) = Some 2"
  by (simp add: Connect_def dial_accepts_def connected_adapter_def)

text \<open>
  C3, amended: \<open>Connect\<close> does not look at the handle it holds. It returns an error
  exactly when the dial fails. After a dial that succeeds the adapter holds the new
  connection in place of the old one; after a dial that fails it holds none. The old
  connection is not closed in either case.
\<close>

theorem Connect_ignores_held_handle:
  assumes "socket w = Some old"
  shows "connect_err (Connect dial w scheme host port createStatus token) =
           (case dial (connect_url scheme host port createStatus token) of
              Inl err \<Rightarrow> Some err | Inr c \<Rightarrow> None) \<and>
         socket (connect_adapter (Connect dial w scheme host port createStatus token)) =
           (case dial (connect_url scheme host port createStatus token) of
              Inl err \<Rightarrow> None | Inr c \<Rightarrow> Some c) \<and>
         Conn_Close old \<notin> set (connect_effects (Connect dial w scheme host port createStatus token))"
  by (simp add: Connect_def Let_def split: sum.splits)

theorem Connect_ignores_held_handle_witness:
  "socket connected_adapter = Some 1 \<and>
   connect_err (Connect (dial_accepts 2) connected_adapter ''ws://'' ''h'' ''1'' False ''t'') = None \<and>
   socket (connect_adapter (Connect (dial_accepts 2) connected_adapter ''ws://'' ''h'' ''1'' False
     ''t'')) = Some 2 \<and>
   connect_err (Connect dial_refuses connected_adapter ''ws://'' ''h'' ''1'' False ''t'') =
     Some (ErrDial ''connection refused'') \<and>
   socket (connect_adapter (Connect dial_refuses connected_adapter ''ws://'' ''h'' ''1'' False
     ''t'')) = None"
proof -
  have a: "socket connected_adapter = Some 1" by (simp add: connected_adapter_def)
  show ?thesis
    using a
      Connect_ignores_held_handle [OF a, of "dial_accepts 2" "''ws://''" "''h''" "''1''" False "''t''"]
      Connect_ignores_held_handle [OF a, of dial_refuses "''ws://''" "''h''" "''1''" False "''t''"]
    by (simp add: dial_accepts_def dial_refuses_def)
qed

subsection \<open>Errors in the receive loop\<close>

text \<open>
  C2, as the spec has it: every read or parse error ends in \<open>Close()\<close> and the end of
  the loop. It does not: on a frame that is not JSON the loop calls the error callback
  and waits for the next frame, with the handle still held and nothing closed.
\<close>

theorem listen_parse_error_counterexample:
  "listen connected_adapter [Received Malformed] =
     (connected_adapter, [Call_onError ErrJsonSyntax], Blocked) \<and>
   socket connected_adapter = Some 1"
  by (simp add: connected_adapter_def listen_frame_def Unmarshal_map_def)

text \<open>
  C2, amended: on a read error met while the handle is held, the loop calls the error
  callback (if there is one), then the close callback if the error is a close error (and
  there is one), then \<open>Close()\<close>, and ends. On a parse error it calls the error callback
  (if there is one) and goes on reading, without closing. On a read error that comes
  after another goroutine has closed the adapter (the only effect is that goroutine's
  closing of the connection) it ends without calling anything.
\<close>

theorem listen_error_handling:
  assumes "socket w = Some c"
  shows "listen w (Failed err # rest) =
           (w\<lparr>socket := None\<rparr>,
            (if onError w then [Call_onError err] else []) @
            (if IsUnexpectedCloseError err [] \<and> onClose w then [Call_onClose] else []) @
            [Conn_Close c],
            Terminated) \<and>
         (Unmarshal_map fr = Inl perr \<longrightarrow>
          listen w (Received fr # rest) =
            (fst (listen w rest),
             (if onError w then [Call_onError perr] else []) @ fst (snd (listen w rest)),
             snd (snd (listen w rest)))) \<and>
         listen w (Closed_locally err # rest) = (w\<lparr>socket := None\<rparr>, [Conn_Close c], Terminated)"
  using assms by (simp add: Close_def listen_frame_def split: prod.splits)

theorem listen_error_handling_witness:
  "socket connected_adapter = Some 1 \<and>
   Unmarshal_map (Document (JNum 3)) = Inl ErrJsonType \<and>
   listen connected_adapter [Failed (CloseError 1006 ''unexpected EOF'')] =
     (connected_adapter\<lparr>socket := None\<rparr>,
      [Call_onError (CloseError 1006 ''unexpected EOF''), Call_onClose, Conn_Close 1],
      Terminated) \<and>
   listen connected_adapter [Received (Document (JNum 3)), Failed (ErrRead ''reset'')] =
     (connected_adapter\<lparr>socket := None\<rparr>,
      [Call_onError ErrJsonType, Call_onError (ErrRead ''reset''), Conn_Close 1],
      Terminated) \<and>
   listen connected_adapter [Closed_locally (ErrRead ''use of closed connection'')] =
     (connected_adapter\<lparr>socket := None\<rparr>, [Conn_Close 1], Terminated)"
proof -
  have a: "socket connected_adapter = Some 1" by (simp add: connected_adapter_def)
  have b: "Unmarshal_map (Document (JNum 3)) = Inl ErrJsonType"
    by (simp add: Unmarshal_map_def)
  have c: "onError connected_adapter" "onClose connected_adapter"
    by (simp_all add: connected_adapter_def)
  show ?thesis
    using a b c
      listen_error_handling [OF a, of "CloseError 1006 ''unexpected EOF''" "[]" "Document (JNum 3)" ErrJsonType]
      listen_error_handling [OF a, of "ErrRead ''reset''" "[]" "Document (JNum 3)" ErrJsonType]
      listen_error_handling [OF a, of "ErrRead ''reset''" "[Failed (ErrRead ''reset'')]" "Document (JNum 3)" ErrJsonType]
      listen_error_handling [OF a, of "ErrRead ''use of closed connection''" "[]" "Document (JNum 3)" ErrJsonType]
    by (simp add: IsUnexpectedCloseError_def)
qed

subsection \<open>Session refresh and the gate\<close>

lemma requests_RefreshSession:
  "requests (calls (RefreshSession env c (Some s) vars)) =
     [SessionRefresh_call (ServerKey c) [] \<lparr>req_Token = RefreshToken s, req_Vars = vars\<rparr>]"
  by (simp add: RefreshSession_def requests_def Let_def split: option.splits sum.splits)

lemma ret_RefreshSession:
  "ret (RefreshSession env c (Some s) vars) =
     (case api_SessionRefresh env (ServerKey c) [] \<lparr>req_Token = RefreshToken s, req_Vars = vars\<rparr> of
        Inl e \<Rightarrow> Inl e
      | Inr a \<Rightarrow> Inr (Update env s (api_Token a) (api_RefreshToken a)))"
  by (simp add: RefreshSession_def Let_def split: option.splits sum.splits)

lemma session_after_RefreshSession:
  "session_after (RefreshSession env c (Some s) vars) =
     (case api_SessionRefresh env (ServerKey c) [] \<lparr>req_Token = RefreshToken s, req_Vars = vars\<rparr> of
        Inl e \<Rightarrow> Some s
      | Inr a \<Rightarrow> Some (Update env s (api_Token a) (api_RefreshToken a)))"
  by (simp add: RefreshSession_def Let_def split: option.splits sum.splits)

text \<open>
  C9. When the refresh request fails, \<open>RefreshSession\<close> returns that very error and the
  caller's session is what it was before the call, in every field. When the request
  succeeds, the session is the old one updated with the two new tokens, and it is this
  session that is returned.
\<close>

theorem RefreshSession_failure_leaves_session:
  "(api_SessionRefresh env (ServerKey c) [] \<lparr>req_Token = RefreshToken s, req_Vars = vars\<rparr> = Inl e \<longrightarrow>
      ret (RefreshSession env c (Some s) vars) = Inl e \<and>
      session_after (RefreshSession env c (Some s) vars) = Some s) \<and>
   (api_SessionRefresh env (ServerKey c) [] \<lparr>req_Token = RefreshToken s, req_Vars = vars\<rparr> = Inr a \<longrightarrow>
      ret (RefreshSession env c (Some s) vars) =
        Inr (Update env s (api_Token a) (api_RefreshToken a)) \<and>
      session_after (RefreshSession env c (Some s) vars) =
        Some (Update env s (api_Token a) (api_RefreshToken a)))"
  by (simp add: ret_RefreshSession session_after_RefreshSession)

theorem RefreshSession_failure_leaves_session_witness:
  "api_SessionRefresh env_refresh_fails (ServerKey sample_client) []
     \<lparr>req_Token = RefreshToken sample_session, req_Vars = []\<rparr> = Inl (ErrApi ''401'') \<and>
   ret (RefreshSession env_refresh_fails sample_client (Some sample_session) []) = Inl (ErrApi ''401'') \<and>
   session_after (RefreshSession env_refresh_fails sample_client (Some sample_session) []) =
     Some sample_session \<and>
   api_SessionRefresh env_refresh_succeeds (ServerKey sample_client) []
     \<lparr>req_Token = RefreshToken sample_session, req_Vars = []\<rparr> =
     Inr \<lparr>api_Created = False, api_RefreshToken = ''new-refresh'', api_Token = ''new-token''\<rparr> \<and>
   session_after (RefreshSession env_refresh_succeeds sample_client (Some sample_session) []) =
     Some (sample_session\<lparr>Token := ''new-token'', RefreshToken := ''new-refresh''\<rparr>)"
proof -
  have a: "api_SessionRefresh env_refresh_fails (ServerKey sample_client) []
     \<lparr>req_Token = RefreshToken sample_session, req_Vars = []\<rparr> = Inl (ErrApi ''401'')"
    by (simp add: env_refresh_fails_def refresh_fails_def)
  have b: "api_SessionRefresh env_refresh_succeeds (ServerKey sample_client) []
     \<lparr>req_Token = RefreshToken sample_session, req_Vars = []\<rparr> =
     Inr \<lparr>api_Created = False, api_RefreshToken = ''new-refresh'', api_Token = ''new-token''\<rparr>"
    by (simp add: env_refresh_succeeds_def refresh_succeeds_def)
  have u: "Update env_refresh_succeeds = Update_spec" by (simp add: env_refresh_succeeds_def)
  show ?thesis
    using a b
      RefreshSession_failure_leaves_session [of env_refresh_fails sample_client sample_session "[]" "ErrApi ''401''"]
      RefreshSession_failure_leaves_session [of env_refresh_succeeds sample_client sample_session "[]" _
        "\<lparr>api_Created = False, api_RefreshToken = ''new-refresh'', api_Token = ''new-token''\<rparr>"]
    by (simp add: u Update_spec_def)
qed

text \<open>
  C5. With auto-refresh on, a refresh token present and the session expired at the
  gate's time (now plus the client's lookahead), \<open>AddGroupUsers\<close> and \<open>AddFriends\<close> send
  exactly one refresh request, and send it first. If it fails, its error is returned
  and the REST call of the operation is not made; if it succeeds, the REST call follows
  with the token of the updated session.
\<close>

theorem gate_refreshes_once:
  assumes "AutoRefreshSession c" and "RefreshToken s \<noteq> []" and "IsExpired env s (gate_time env c)"
  shows "requests (calls (AddGroupUsers env c (Some s) groupId ids)) =
           SessionRefresh_call (ServerKey c) [] \<lparr>req_Token = RefreshToken s, req_Vars = []\<rparr> #
           (case api_SessionRefresh env (ServerKey c) [] \<lparr>req_Token = RefreshToken s, req_Vars = []\<rparr> of
              Inl e \<Rightarrow> []
            | Inr a \<Rightarrow>
                [AddGroupUsers_call (Token (Update env s (api_Token a) (api_RefreshToken a)))
                   groupId ids]) \<and>
         requests (calls (AddFriends env c (Some s) fids usernames)) =
           SessionRefresh_call (ServerKey c) [] \<lparr>req_Token = RefreshToken s, req_Vars = []\<rparr> #
           (case api_SessionRefresh env (ServerKey c) [] \<lparr>req_Token = RefreshToken s, req_Vars = []\<rparr> of
              Inl e \<Rightarrow> []
            | Inr a \<Rightarrow>
                [AddFriends_call (Token (Update env s (api_Token a) (api_RefreshToken a)))
                   fids usernames]) \<and>
         (api_SessionRefresh env (ServerKey c) [] \<lparr>req_Token = RefreshToken s, req_Vars = []\<rparr> = Inl e \<longrightarrow>
            ret (AddGroupUsers env c (Some s) groupId ids) = Inl e \<and>
            ret (AddFriends env c (Some s) fids usernames) = Inl e)"
proof -
  have n: "needs_refresh env c s" using assms by (simp add: needs_refresh_def)
  note r = requests_RefreshSession [of env c s "[]"] ret_RefreshSession [of env c s "[]"]
  have req_app: "\<And>xs ys. requests (xs @ ys) = requests xs @ requests ys"
    by (simp add: requests_def)
  have g: "requests (calls (AddGroupUsers env c (Some s) groupId ids)) =
           SessionRefresh_call (ServerKey c) [] \<lparr>req_Token = RefreshToken s, req_Vars = []\<rparr> #
           (case api_SessionRefresh env (ServerKey c) [] \<lparr>req_Token = RefreshToken s, req_Vars = []\<rparr> of
              Inl e \<Rightarrow> []
            | Inr a \<Rightarrow>
                [AddGroupUsers_call (Token (Update env s (api_Token a) (api_RefreshToken a)))
                   groupId ids])"
    using r by (simp add: AddGroupUsers_def n Let_def req_app split: sum.splits) (simp add: requests_def)
  have f: "requests (calls (AddFriends env c (Some s) fids usernames)) =
           SessionRefresh_call (ServerKey c) [] \<lparr>req_Token = RefreshToken s, req_Vars = []\<rparr> #
           (case api_SessionRefresh env (ServerKey c) [] \<lparr>req_Token = RefreshToken s, req_Vars = []\<rparr> of
              Inl e \<Rightarrow> []
            | Inr a \<Rightarrow>
                [AddFriends_call (Token (Update env s (api_Token a) (api_RefreshToken a)))
                   fids usernames])"
    using r by (simp add: AddFriends_def n Let_def req_app split: sum.splits) (simp add: requests_def)
  have e: "api_SessionRefresh env (ServerKey c) [] \<lparr>req_Token = RefreshToken s, req_Vars = []\<rparr> = Inl e \<longrightarrow>
            ret (AddGroupUsers env c (Some s) groupId ids) = Inl e \<and>
            ret (AddFriends env c (Some s) fids usernames) = Inl e"
    using r(2) by (simp add: AddGroupUsers_def AddFriends_def n Let_def)
  show ?thesis using g f e by blast
qed

lemma gate_time_sample: "gate_time env_refresh_fails sample_client = 10300"
  "gate_time env_refresh_succeeds sample_client = 10300"
  by (simp_all add: gate_time_def env_refresh_fails_def env_refresh_succeeds_def sample_client_def signed_divide_int_def)

theorem gate_refreshes_once_witness:
  "AutoRefreshSession sample_client \<and> RefreshToken sample_session \<noteq> [] \<and>
   IsExpired env_refresh_fails sample_session (gate_time env_refresh_fails sample_client) \<and>
   IsExpired env_refresh_succeeds sample_session (gate_time env_refresh_succeeds sample_client) \<and>
   requests (calls (AddGroupUsers env_refresh_fails sample_client (Some sample_session) ''g'' [''u''])) =
     [SessionRefresh_call ''defaultkey'' [] \<lparr>req_Token = ''old-refresh'', req_Vars = []\<rparr>] \<and>
   ret (AddGroupUsers env_refresh_fails sample_client (Some sample_session) ''g'' [''u'']) =
     Inl (ErrApi ''401'') \<and>
   requests (calls (AddFriends env_refresh_succeeds sample_client (Some sample_session) [''u''] [])) =
     [SessionRefresh_call ''defaultkey'' [] \<lparr>req_Token = ''old-refresh'', req_Vars = []\<rparr>,
      AddFriends_call ''new-token'' [''u''] []]"
proof -
  have a: "AutoRefreshSession sample_client" by (simp add: sample_client_def)
  have b: "RefreshToken sample_session \<noteq> []" by (simp add: sample_session_def)
  have ie: "IsExpired env_refresh_fails = IsExpired_spec"
    "IsExpired env_refresh_succeeds = IsExpired_spec"
    by (simp_all add: env_refresh_fails_def env_refresh_succeeds_def)
  have c: "IsExpired env_refresh_fails sample_session (gate_time env_refresh_fails sample_client)"
    by (simp add: ie gate_time_sample IsExpired_spec_def sample_session_def)
  have d: "IsExpired env_refresh_succeeds sample_session (gate_time env_refresh_succeeds sample_client)"
    by (simp add: ie gate_time_sample IsExpired_spec_def sample_session_def)
  have k: "ServerKey sample_client = ''defaultkey''" "RefreshToken sample_session = ''old-refresh''"
    by (simp_all add: sample_client_def sample_session_def)
  have e: "api_SessionRefresh env_refresh_fails ''defaultkey'' []
      \<lparr>req_Token = ''old-refresh'', req_Vars = []\<rparr> = Inl (ErrApi ''401'')"
    by (simp add: env_refresh_fails_def refresh_fails_def)
  have f: "api_SessionRefresh env_refresh_succeeds ''defaultkey'' []
      \<lparr>req_Token = ''old-refresh'', req_Vars = []\<rparr> =
      Inr \<lparr>api_Created = False, api_RefreshToken = ''new-refresh'', api_Token = ''new-token''\<rparr>"
    by (simp add: env_refresh_succeeds_def refresh_succeeds_def)
  have u: "Update env_refresh_succeeds = Update_spec" by (simp add: env_refresh_succeeds_def)
  show ?thesis
    using a b c d
      gate_refreshes_once [OF a b c, of "''g''" "[''u'']" "[''u'']" "[]" "ErrApi ''401''"]
      gate_refreshes_once [OF a b d, of "''g''" "[''u'']" "[''u'']" "[]" "ErrApi ''401''"]
    by (simp add: k e f u Update_spec_def)
qed

subsection \<open>Association lists\<close>

lemma map_of_update: "map_of (AList.update k v al) k' = (if k' = k then Some v else map_of al k')"
  by (simp add: update_conv')

lemma map_of_map_prod: "map_of (map (map_prod id f) kvs) k = map_option f (map_of kvs k)"
  by (induction kvs) auto

lemma set_update_subset: "set (AList.update k v al) \<subseteq> insert (k, v) (set al)"
  by (induction al) auto

lemma map_of_filter_key: "map_of (filter (\<lambda>p. fst p = k) xs) k = map_of xs k"
  by (induction xs) auto

lemma filter_key_map_prod:
  "filter (\<lambda>p. fst p = k) (map (map_prod id f) xs) = map (map_prod id f) (filter (\<lambda>p. fst p = k) xs)"
  by (induction xs) auto

lemma filter_key_apfst:
  assumes "\<And>k'. g k' = k \<longleftrightarrow> k' = k"
  shows "filter (\<lambda>p. fst p = k) (map (apfst g) xs) = map (apfst g) (filter (\<lambda>p. fst p = k) xs)"
proof -
  have g: "\<And>k'. (g k' = k) = (k' = k)" "\<And>k'. (k = g k') = (k' = k)"
    using assms by metis+
  show ?thesis by (induction xs) (auto simp: g)
qed

lemma map_of_apfst_key:
  assumes "\<And>k'. g k' = k \<longleftrightarrow> k' = k"
  shows "map_of (map (apfst g) xs) k = map_of xs k"
proof -
  have g: "\<And>k'. (g k' = k) = (k' = k)" "\<And>k'. (k = g k') = (k' = k)"
    using assms by metis+
  show ?thesis by (induction xs) (auto simp: g)
qed

lemma map_of_sort_key: "map_of (sort_key fst xs) k = map_of xs k"
proof -
  have "map_of (sort_key fst xs) k = map_of (filter (\<lambda>p. fst p = k) (sort_key fst xs)) k"
    by (simp only: map_of_filter_key)
  also have "\<dots> = map_of (filter (\<lambda>p. fst p = k) xs) k"
    by (simp only: sort_key_stable)
  finally show ?thesis by (simp only: map_of_filter_key)
qed

lemma once_distinct:
  "distinct (map fst xs) \<Longrightarrow> length (filter (\<lambda>p. fst p = k) xs) \<le> 1"
proof (induction xs)
  case Nil
  then show ?case by simp
next
  case (Cons x xs)
  show ?case
  proof (cases "fst x = k")
    case True
    then have "k \<notin> fst ` set xs" using Cons.prems by simp
    then have "filter (\<lambda>p. fst p = k) xs = []" by (auto simp: filter_empty_conv)
    then show ?thesis using True by simp
  next
    case False
    then show ?thesis using Cons by simp
  qed
qed

lemma map_of_rev_once:
  assumes "length (filter (\<lambda>p. fst p = k) xs) \<le> 1"
  shows "map_of (rev xs) k = map_of xs k"
proof -
  have "rev (filter (\<lambda>p. fst p = k) xs) = filter (\<lambda>p. fst p = k) xs"
  proof (cases "filter (\<lambda>p. fst p = k) xs")
    case Nil
    then show ?thesis by simp
  next
    case (Cons y ys)
    then have "ys = []" using assms by simp
    then show ?thesis using Cons by simp
  qed
  then have "filter (\<lambda>p. fst p = k) (rev xs) = filter (\<lambda>p. fst p = k) xs"
    by (simp add: rev_filter)
  then show ?thesis
    using map_of_filter_key [of k "rev xs"] map_of_filter_key [of k xs] by simp
qed

lemma map_of_foldl_update:
  assumes "\<And>k'. g k' = k \<longleftrightarrow> k' = k"
  shows "map_of (foldl (\<lambda>m (k', v). AList.update (g k') v m) acc xs) k =
           (case map_of (rev xs) k of Some v \<Rightarrow> Some v | None \<Rightarrow> map_of acc k)"
proof (induction xs arbitrary: acc)
  case Nil
  then show ?case by simp
next
  case (Cons x xs)
  obtain k0 v0 where x: "x = (k0, v0)" by (cases x)
  have g: "(g k0 = k) = (k0 = k)" "(k = g k0) = (k0 = k)"
    using assms by metis+
  show ?case
    by (auto simp: x Cons.IH map_of_update g map_add_def split: option.splits)
qed

lemma distinct_foldl_update:
  "distinct (map fst acc) \<Longrightarrow>
   distinct (map fst (foldl (\<lambda>m (k', v). AList.update (g k') v m) acc xs))"
  by (induction xs arbitrary: acc) (auto simp: distinct_update)

lemma snd_foldl_update:
  "snd ` set (foldl (\<lambda>m (k', v). AList.update (g k') v m) acc xs) \<subseteq> snd ` set acc \<union> snd ` set xs"
proof (induction xs arbitrary: acc)
  case Nil
  then show ?case by simp
next
  case (Cons x xs)
  obtain k0 v0 where x: "x = (k0, v0)" by (cases x)
  have "snd ` set (AList.update (g k0) v0 acc) \<subseteq> insert v0 (snd ` set acc)"
    using set_update_subset [of "g k0" v0 acc] by force
  then have "snd ` set (foldl (\<lambda>m (k', v). AList.update (g k') v m) (AList.update (g k0) v0 acc) xs)
      \<subseteq> insert v0 (snd ` set acc) \<union> snd ` set xs"
    using Cons.IH [of "AList.update (g k0) v0 acc"] by blast
  then show ?case by (simp add: x)
qed

lemma coerceUTF8_key: "ascii k \<Longrightarrow> coerceUTF8 k' = k \<longleftrightarrow> k' = k"
  using coerceUTF8_eq_ascii coerceUTF8_ascii by blast

lemma map_of_store_members:
  assumes "ascii k" and "length (filter (\<lambda>p. fst p = k) xs) \<le> 1"
  shows "map_of (store_members xs) k = map_of xs k"
proof -
  have "map_of (store_members xs) k =
      (case map_of (rev xs) k of Some v \<Rightarrow> Some v | None \<Rightarrow> map_of [] k)"
    unfolding store_members_def
    by (rule map_of_foldl_update) (simp add: coerceUTF8_key [OF assms(1)])
  then show ?thesis by (simp add: map_of_rev_once [OF assms(2)] split: option.splits)
qed

lemma distinct_store_members: "distinct (map fst (store_members xs))"
  unfolding store_members_def by (rule distinct_foldl_update) simp

lemma snd_store_members: "snd ` set (store_members xs) \<subseteq> snd ` set xs"
  using snd_foldl_update [of coerceUTF8 "[]" xs] by (simp add: store_members_def)

subsection \<open>Marshalling\<close>

lemma collect_fields_Cons:
  "collect_fields ((k, jo) # kvs) =
     (case jo of None \<Rightarrow> None | Some j \<Rightarrow> map_option (Cons (k, j)) (collect_fields kvs))"
  by (simp add: collect_fields_def split: option.splits)

lemma collect_fields_Nil: "collect_fields [] = Some []"
  by (simp add: collect_fields_def)

lemma map_of_collect: 
  "collect_fields xs = Some js \<Longrightarrow>
   map_of js k = (case map_of xs k of None \<Rightarrow> None | Some r \<Rightarrow> r)"
proof (induction xs arbitrary: js)
  case Nil
  then show ?case by (simp add: collect_fields_Nil)
next
  case (Cons x xs)
  obtain k0 r0 where x: "x = (k0, r0)" by (cases x)
  from Cons.prems obtain j js' where r0: "r0 = Some j"
    and c: "collect_fields xs = Some js'" and js: "js = (k0, j) # js'"
    by (auto simp: x collect_fields_Cons split: option.splits)
  show ?case using Cons.IH [OF c] by (simp add: x r0 js)
qed

lemma fst_collect: "collect_fields xs = Some js \<Longrightarrow> map fst js = map fst xs"
proof (induction xs arbitrary: js)
  case Nil
  then show ?case by (simp add: collect_fields_Nil)
next
  case (Cons x xs)
  obtain k0 r0 where x: "x = (k0, r0)" by (cases x)
  from Cons.prems obtain j js' where r0: "r0 = Some j"
    and c: "collect_fields xs = Some js'" and js: "js = (k0, j) # js'"
    by (auto simp: x collect_fields_Cons split: option.splits)
  show ?case using Cons.IH [OF c] by (simp add: x r0 js)
qed

lemma collect_defined: "collect_fields xs \<noteq> None \<longleftrightarrow> (\<forall>r \<in> snd ` set xs. r \<noteq> None)"
  by (induction xs) (auto simp: collect_fields_Nil collect_fields_Cons split: option.splits)

lemma map_of_collect_fields:
  assumes "collect_fields (map (map_prod id f) kvs) = Some js"
  shows "map_of js k = Option.bind (map_of kvs k) f"
  using map_of_collect [OF assms, of k]
  by (cases "map_of kvs k") (simp_all add: map_of_map_prod)

lemma fst_collect_fields:
  assumes "collect_fields (map (map_prod id f) kvs) = Some js"
  shows "map fst js = map fst kvs"
  using fst_collect [OF assms] by (simp add: comp_def)

lemma collect_fields_defined:
  "collect_fields (map (map_prod id f) kvs) \<noteq> None \<longleftrightarrow> (\<forall>v \<in> snd ` set kvs. f v \<noteq> None)"
  by (simp only: collect_defined) force

lemma json_Marshal_GMap_defined:
  "json_Marshal (GMap kvs) \<noteq> None \<longleftrightarrow> (\<forall>v \<in> snd ` set kvs. json_Marshal v \<noteq> None)"
  using collect_fields_defined [of json_Marshal kvs] by simp

lemma json_Marshal_GMap_D:
  assumes "json_Marshal (GMap kvs) = Some d"
  shows "\<exists>js0. collect_fields (map (map_prod id json_Marshal) kvs) = Some js0 \<and>
           d = JObj (map (apfst coerceUTF8) (sort_key fst js0))"
  using assms by auto

lemma jfield_json_Marshal:
  assumes "json_Marshal (GMap kvs) = Some d" and "ascii k"
  shows "jfield d k = Option.bind (map_of kvs k) json_Marshal"
proof -
  obtain js0 where c: "collect_fields (map (map_prod id json_Marshal) kvs) = Some js0"
    and d: "d = JObj (map (apfst coerceUTF8) (sort_key fst js0))"
    using json_Marshal_GMap_D [OF assms(1)] by blast
  have "jfield d k = map_of (sort_key fst js0) k"
    unfolding d jfield_def
    by (simp add: map_of_apfst_key [where g = coerceUTF8, OF coerceUTF8_key [OF assms(2)]])
  then show ?thesis by (simp add: map_of_sort_key map_of_collect_fields [OF c])
qed

lemma once_json_Marshal:
  assumes "json_Marshal (GMap kvs) = Some (JObj js)" and "ascii k"
    and "distinct (map fst kvs)"
  shows "length (filter (\<lambda>p. fst p = k) js) \<le> 1"
proof -
  obtain js0 where c: "collect_fields (map (map_prod id json_Marshal) kvs) = Some js0"
    and d: "JObj js = JObj (map (apfst coerceUTF8) (sort_key fst js0))"
    using json_Marshal_GMap_D [OF assms(1)] by blast
  have "distinct (map fst js0)" using fst_collect_fields [OF c] assms(3) by simp
  then have "length (filter (\<lambda>p. fst p = k) js0) \<le> 1" by (rule once_distinct)
  moreover have "filter (\<lambda>p. fst p = k) js =
      map (apfst coerceUTF8) (filter (\<lambda>p. fst p = k) js0)"
    using d
    by (simp add: filter_key_apfst [where g = coerceUTF8, OF coerceUTF8_key [OF assms(2)]]
        sort_key_stable)
  ultimately show ?thesis by simp
qed

lemma those_defined: "(\<forall>x \<in> set xs. f x \<noteq> None) \<Longrightarrow> those (map f xs) \<noteq> None"
  by (induction xs) (auto split: option.splits)

lemma json_Marshal_Unmarshal: "json_Marshal (json_Unmarshal j) \<noteq> None"
proof (induction j)
  case (JArr js)
  then have "those (map json_Marshal (map json_Unmarshal js)) \<noteq> None"
    by (intro those_defined) simp
  then show ?case by simp
next
  case (JObj kvs)
  have "\<forall>v \<in> snd ` set (map (map_prod id json_Unmarshal) kvs). json_Marshal v \<noteq> None"
    using JObj snds.intros by fastforce
  then have "\<forall>v \<in> snd ` set (store_members (map (map_prod id json_Unmarshal) kvs)).
      json_Marshal v \<noteq> None"
    using snd_store_members [of "map (map_prod id json_Unmarshal) kvs"] by blast
  then have "json_Marshal (GMap (store_members (map (map_prod id json_Unmarshal) kvs))) \<noteq> None"
    by (simp only: json_Marshal_GMap_defined)
  then show ?case by simp
qed simp_all

subsection \<open>Texts that are ASCII\<close>

lemma decodeMap_ascii: "decodeMap c \<noteq> None \<Longrightarrow> (of_char c :: nat) < 0x80"
  by (simp add: decodeMap_def Let_def split: if_splits)

lemma ascii_EncodeToString: "ascii (EncodeToString p)"
  by (induction p rule: EncodeToString.induct)
    (simp_all add: ascii_def Let_def decodeMap_ascii [OF decodeMap_encodeStd_defined])







lemma ascii_fields:
  "ascii ''match_data_send''" "ascii ''party_data_send''" "ascii ''op_code''" "ascii ''data''"
  by (simp_all add: ascii_def)

subsection \<open>The receive loop on a frame\<close>

lemma map_of_decodeReceivedData_other:
  "k \<noteq> field \<Longrightarrow> map_of (decodeReceivedData msg field) k = map_of msg k"
  by (simp add: decodeReceivedData_def map_of_update split: option.splits gval.splits)

lemma decodeReceivedData_marshals:
  assumes "json_Marshal (GMap msg) \<noteq> None"
  shows "json_Marshal (GMap (decodeReceivedData msg field)) \<noteq> None"
proof (cases "\<exists>dataMap s b. map_of msg field = Some (GMap dataMap) \<and>
    map_of dataMap ''data'' = Some (GStr s) \<and> DecodeString s = Some b")
  case False
  then have "decodeReceivedData msg field = msg"
    by (auto simp: decodeReceivedData_def split: option.splits gval.splits)
  then show ?thesis using assms by simp
next
  case True
  then obtain dataMap s b where m: "map_of msg field = Some (GMap dataMap)"
    and d: "map_of dataMap ''data'' = Some (GStr s)" and b: "DecodeString s = Some b" by blast
  have eq: "decodeReceivedData msg field =
      AList.update field (GMap (AList.update ''data'' (GBytes b) dataMap)) msg"
    by (simp add: decodeReceivedData_def m d b)
  have all: "\<forall>v \<in> snd ` set msg. json_Marshal v \<noteq> None"
    using assms by (simp only: json_Marshal_GMap_defined)
  have "(field, GMap dataMap) \<in> set msg" using m by (rule map_of_SomeD)
  then have "json_Marshal (GMap dataMap) \<noteq> None" using all by force
  then have dm: "\<forall>v \<in> snd ` set dataMap. json_Marshal v \<noteq> None"
    by (simp only: json_Marshal_GMap_defined)
  have "\<forall>v \<in> snd ` set (AList.update ''data'' (GBytes b) dataMap). json_Marshal v \<noteq> None"
    using dm set_update_subset [of "''data''" "GBytes b" dataMap] by fastforce
  then have sub: "json_Marshal (GMap (AList.update ''data'' (GBytes b) dataMap)) \<noteq> None"
    by (simp only: json_Marshal_GMap_defined)
  have "\<forall>v \<in> snd ` set (AList.update field (GMap (AList.update ''data'' (GBytes b) dataMap)) msg).
      json_Marshal v \<noteq> None"
    using all sub set_update_subset [of field "GMap (AList.update ''data'' (GBytes b) dataMap)" msg]
    by fastforce
  then show ?thesis unfolding eq by (simp only: json_Marshal_GMap_defined)
qed

lemma listen_single_frame:
  "socket w = Some c \<Longrightarrow> listen w [Received fr] = (w, listen_frame w fr, Blocked)"
  by simp

text \<open>
  A frame that holds a string at \<open>k1.k2\<close>, with \<open>k1\<close> none of the two inbound kinds: the
  message callback gets a document with the same string there, coerced to UTF-8.
\<close>

lemma listen_frame_path:
  assumes "onMessage w"
    and "k1 \<noteq> ''match_data''" and "k1 \<noteq> ''party_data''" and "ascii k1" and "ascii k2"
    and "length (filter (\<lambda>p. fst p = k1) js) \<le> 1" and "map_of js k1 = Some (JObj sub)"
    and "length (filter (\<lambda>p. fst p = k2) sub) \<le> 1" and "map_of sub k2 = Some (JStr s)"
  shows "\<exists>d. listen_frame w (Document (JObj js)) = [Call_onMessage d] \<and>
           jpath d k1 k2 = Some (JStr (coerceUTF8 s))"
proof -
  define m0 where "m0 = store_members (map (map_prod id json_Unmarshal) js)"
  define m2 where "m2 = decodeReceivedData (decodeReceivedData m0 ''match_data'') ''party_data''"
  define sm where "sm = store_members (map (map_prod id json_Unmarshal) sub)"
  have "json_Marshal (GMap m0) \<noteq> None"
    using json_Marshal_Unmarshal [of "JObj js"] by (simp add: m0_def del: json_Marshal.simps)
  then have "json_Marshal (GMap m2) \<noteq> None"
    unfolding m2_def by (intro decodeReceivedData_marshals)
  then obtain d where d: "json_Marshal (GMap m2) = Some d" by blast
  have "listen_frame w (Document (JObj js)) =
      (case json_Marshal (GMap m2) of
         Some messageBytes \<Rightarrow> [Call_onMessage messageBytes]
       | None \<Rightarrow> (if onError w then [Call_onError ErrJsonUnsupported] else []))"
    using assms(1)
    by (simp add: listen_frame_def Unmarshal_map_def Marshal_map_def m0_def m2_def
        del: json_Marshal.simps)
  then have lf: "listen_frame w (Document (JObj js)) = [Call_onMessage d]"
    by (simp only: d option.case)
  have once1: "length (filter (\<lambda>p. fst p = k1) (map (map_prod id json_Unmarshal) js)) \<le> 1"
    using assms(6) by (simp add: filter_key_map_prod)
  have "map_of m0 k1 = Some (GMap sm)"
    unfolding m0_def
    by (simp add: map_of_store_members [OF assms(4) once1] map_of_map_prod assms(7) sm_def)
  then have m2k: "map_of m2 k1 = Some (GMap sm)"
    using assms(2,3) by (simp add: m2_def map_of_decodeReceivedData_other)
  have once2: "length (filter (\<lambda>p. fst p = k2) (map (map_prod id json_Unmarshal) sub)) \<le> 1"
    using assms(8) by (simp add: filter_key_map_prod)
  have smk: "map_of sm k2 = Some (GStr (coerceUTF8 s))"
    unfolding sm_def
    by (simp add: map_of_store_members [OF assms(5) once2] map_of_map_prod assms(9))
  have "json_Marshal (GMap sm) \<noteq> None"
    using json_Marshal_Unmarshal [of "JObj sub"] by (simp add: sm_def del: json_Marshal.simps)
  then obtain dsub where dsub: "json_Marshal (GMap sm) = Some dsub" by blast
  have "jfield d k1 = Some dsub"
    using jfield_json_Marshal [OF d assms(4)] by (simp add: m2k dsub del: json_Marshal.simps)
  moreover have "jfield dsub k2 = Some (JStr (coerceUTF8 s))"
    using jfield_json_Marshal [OF dsub assms(5)] by (simp add: smk coerceUTF8_idem)
  ultimately have "jpath d k1 k2 = Some (JStr (coerceUTF8 s))" by (simp add: jpath_def)
  then show ?thesis using lf by blast
qed

lemma gpath_decodeReceivedData:
  assumes "map_of inbound rfield = Some (GMap dataMap)"
    and "map_of dataMap ''data'' = Some (GStr (EncodeToString p))"
  shows "gpath (GMap (decodeReceivedData inbound rfield)) rfield ''data'' = Some (GBytes p)"
  using assms
  by (simp add: decodeReceivedData_def DecodeString_EncodeToString gpath_def gfield_def map_of_update)

subsection \<open>The store\<close>

lemma deref_assign:
  "deref (assign h a k v) b = (if b = a then AList.update k v (deref h a) else deref h b)"
  by (simp add: deref_def assign_def map_of_update)

lemma map_of_deref_assign:
  "map_of (deref (assign h a k v) b) k' =
     (if b = a \<and> k' = k then Some v else map_of (deref h b) k')"
  by (simp add: deref_assign map_of_update)

lemma those_map_transfer:
  "those (map f xs) = Some ys \<Longrightarrow> (\<forall>x \<in> set xs. \<forall>y. f x = Some y \<longrightarrow> g x = Some y) \<Longrightarrow>
   those (map g xs) = Some ys"
  by (induction xs arbitrary: ys) (auto split: option.splits)

lemma snapshot_plain: "plain v = Some t \<Longrightarrow> snapshot h n v = Some t"
proof (induction v arbitrary: t)
  case (HList vs)
  from HList.prems obtain ts where ts: "those (map plain vs) = Some ts" and t: "t = GList ts"
    by auto
  have "\<forall>x \<in> set vs. \<forall>y. plain x = Some y \<longrightarrow> snapshot h n x = Some y"
    using HList.IH by blast
  with ts have "those (map (snapshot h n) vs) = Some ts" by (rule those_map_transfer)
  then show ?case by (simp add: t)
qed simp_all

lemma read_value_plain: "plain v = Some t \<Longrightarrow> read_value h v = Some t"
  by (simp add: read_value_def snapshot_plain)

lemma read_value_HStr: "read_value h (HStr s) = Some (GStr s)"
  by (simp add: read_value_def)

lemma snapshot_field:
  assumes "snapshot h n (HMap a) = Some t" and "map_of (deref h a) k = Some x"
  shows "\<exists>n' es y. n = Suc n' \<and> t = GMap es \<and> distinct (map fst es) \<and>
           map_of es k = Some y \<and> snapshot h n' x = Some y"
proof (cases n)
  case 0
  then show ?thesis using assms(1) by simp
next
  case (Suc n')
  define xs where
    "xs = map (\<lambda>(k, v). (k, snapshot h n' v)) (AList.clearjunk (deref h a))"
  from assms(1) obtain es where c: "collect_fields xs = Some es" and t: "t = GMap es"
    by (auto simp: Suc xs_def)
  have "map fst xs = map fst (AList.clearjunk (deref h a))"
    by (simp add: xs_def comp_def case_prod_unfold)
  then have dist: "distinct (map fst es)"
    using fst_collect [OF c] by (simp add: distinct_clearjunk)
  have look: "map_of xs k = Some (snapshot h n' x)"
    by (simp add: xs_def map_of_map map_of_clearjunk assms(2))
  then have "(k, snapshot h n' x) \<in> set xs" by (rule map_of_SomeD)
  moreover have "\<forall>r \<in> snd ` set xs. r \<noteq> None"
    using c collect_defined [of xs] by simp
  ultimately obtain y where y: "snapshot h n' x = Some y" by force
  have "map_of es k = Some y" using map_of_collect [OF c, of k] by (simp add: look y)
  then show ?thesis using Suc t dist y by blast
qed

subsection \<open>What \<open>handleEncodedData\<close> and \<open>Send\<close> write\<close>

lemma handleEncodedData_not_map:
  assumes "\<forall>a. map_of (deref h m) field \<noteq> Some (HMap a)"
  shows "handleEncodedData h m field = Some h"
  using assms by (auto simp: handleEncodedData_def split: option.splits hval.splits)

lemma handleEncodedData_map:
  assumes "map_of (deref h m) field = Some (HMap a)"
    and "handleEncodedData h m field = Some h'"
  shows "\<exists>h1. (case map_of (deref h a) ''op_code'' of
                 Some opCode \<Rightarrow>
                   map_option (\<lambda>t. assign h a ''op_code'' (HStr (Sprintf_v t)))
                     (read_value h opCode)
               | None \<Rightarrow> Some h) = Some h1 \<and>
              h' = (case map_of (deref h1 a) ''data'' of
                      Some (HBytes v) \<Rightarrow> assign h1 a ''data'' (HStr (EncodeToString v))
                    | Some (HStr v) \<Rightarrow>
                        assign h1 a ''data'' (HStr (EncodeToString (bytes_of v)))
                    | _ \<Rightarrow> h1)"
proof (cases "case map_of (deref h a) ''op_code'' of
                 Some opCode \<Rightarrow>
                   map_option (\<lambda>t. assign h a ''op_code'' (HStr (Sprintf_v t)))
                     (read_value h opCode)
               | None \<Rightarrow> Some h")
  case None
  then show ?thesis using assms by (simp add: handleEncodedData_def)
next
  case (Some h1)
  then show ?thesis using assms by (auto simp: handleEncodedData_def)
qed

text \<open>
  Every entry of every map after \<open>handleEncodedData\<close>, in terms of the store before: the
  \<open>op_code\<close> and the \<open>data\<close> of the map under \<open>field\<close> are rewritten, nothing else is.
\<close>

lemma handleEncodedData_lookup_target:
  assumes "map_of (deref h m) field = Some (HMap a)"
    and "handleEncodedData h m field = Some h'"
  shows "map_of (deref h' b) k =
     (if b = a \<and> k = ''op_code'' then
        (case map_of (deref h a) ''op_code'' of
           None \<Rightarrow> None
         | Some v \<Rightarrow> map_option (\<lambda>t. HStr (Sprintf_v t)) (read_value h v))
      else if b = a \<and> k = ''data'' then
        (case map_of (deref h a) ''data'' of
           Some (HBytes v) \<Rightarrow> Some (HStr (EncodeToString v))
         | Some (HStr v) \<Rightarrow> Some (HStr (EncodeToString (bytes_of v)))
         | other \<Rightarrow> other)
      else map_of (deref h b) k)"
proof -
  obtain h1 where s1: "(case map_of (deref h a) ''op_code'' of
                 Some opCode \<Rightarrow>
                   map_option (\<lambda>t. assign h a ''op_code'' (HStr (Sprintf_v t)))
                     (read_value h opCode)
               | None \<Rightarrow> Some h) = Some h1"
    and s2: "h' = (case map_of (deref h1 a) ''data'' of
                      Some (HBytes v) \<Rightarrow> assign h1 a ''data'' (HStr (EncodeToString v))
                    | Some (HStr v) \<Rightarrow>
                        assign h1 a ''data'' (HStr (EncodeToString (bytes_of v)))
                    | _ \<Rightarrow> h1)"
    using handleEncodedData_map [OF assms] by blast
  have l1: "map_of (deref h1 b') k' =
      (if b' = a \<and> k' = ''op_code'' then
         (case map_of (deref h a) ''op_code'' of
            None \<Rightarrow> None
          | Some v \<Rightarrow> map_option (\<lambda>t. HStr (Sprintf_v t)) (read_value h v))
       else map_of (deref h b') k')" for b' k'
  proof (cases "map_of (deref h a) ''op_code''")
    case None
    then show ?thesis using s1 by auto
  next
    case (Some v)
    then obtain t where t: "read_value h v = Some t"
      and h1: "h1 = assign h a ''op_code'' (HStr (Sprintf_v t))"
      using s1 by auto
    show ?thesis by (simp add: h1 map_of_deref_assign Some t)
  qed
  have d1: "map_of (deref h1 a) ''data'' = map_of (deref h a) ''data''"
    by (simp add: l1)
  have l2: "map_of (deref h' b) k =
      (if b = a \<and> k = ''data'' then
         (case map_of (deref h1 a) ''data'' of
            Some (HBytes v) \<Rightarrow> Some (HStr (EncodeToString v))
          | Some (HStr v) \<Rightarrow> Some (HStr (EncodeToString (bytes_of v)))
          | other \<Rightarrow> other)
       else map_of (deref h1 b) k)"
    unfolding s2
    by (simp add: map_of_deref_assign del: EncodeToString.simps split: option.splits hval.splits)
  show ?thesis unfolding l2 d1 l1 by simp
qed

lemma handleEncodedData_lookup:
  assumes "handleEncodedData h m field = Some h'"
  shows "map_of (deref h' b) k =
     (if map_of (deref h m) field = Some (HMap b) \<and> k = ''op_code'' then
        (case map_of (deref h b) ''op_code'' of
           None \<Rightarrow> None
         | Some v \<Rightarrow> map_option (\<lambda>t. HStr (Sprintf_v t)) (read_value h v))
      else if map_of (deref h m) field = Some (HMap b) \<and> k = ''data'' then
        (case map_of (deref h b) ''data'' of
           Some (HBytes v) \<Rightarrow> Some (HStr (EncodeToString v))
         | Some (HStr v) \<Rightarrow> Some (HStr (EncodeToString (bytes_of v)))
         | other \<Rightarrow> other)
      else map_of (deref h b) k)"
proof (cases "\<exists>a. map_of (deref h m) field = Some (HMap a)")
  case False
  then have "h' = h" using assms handleEncodedData_not_map [of h m field] by simp
  then show ?thesis using False by simp
next
  case True
  then obtain a where a: "map_of (deref h m) field = Some (HMap a)" by blast
  show ?thesis
    unfolding handleEncodedData_lookup_target [OF a assms, of b k]
    by (cases "b = a") (simp_all add: a)
qed

lemma Send_connected:
  assumes "socket w = Some c" and "Send write w h (HMap m) = Some r"
  shows "\<exists>h1 printed.
           handleEncodedData h m ''match_data_send'' = Some h1 \<and>
           handleEncodedData h1 m ''party_data_send'' = Some (send_heap r) \<and>
           read_value (send_heap r) (HMap m) = Some printed \<and>
           (send_err r = None \<longrightarrow>
              (\<exists>doc. json_Marshal printed = Some doc \<and> send_effects r = [Conn_Write c doc]))"
  using assms
  by (auto simp: Send_def simp del: json_Marshal.simps split: option.splits Option.bind_splits)

lemma Send_keeps_other_keys:
  assumes "socket w = Some c" and "Send write w h (HMap m) = Some r"
    and "k \<noteq> ''op_code''" and "k \<noteq> ''data''"
  shows "map_of (deref (send_heap r) b) k = map_of (deref h b) k"
proof -
  obtain h1 where 1: "handleEncodedData h m ''match_data_send'' = Some h1"
    and 2: "handleEncodedData h1 m ''party_data_send'' = Some (send_heap r)"
    using Send_connected [OF assms(1,2)] by blast
  show ?thesis
    by (simp add: handleEncodedData_lookup [OF 2] handleEncodedData_lookup [OF 1] assms(3,4))
qed

lemma Send_op_code:
  assumes "socket w = Some c" and "Send write w h (HMap m) = Some r"
    and "field = ''match_data_send'' \<or> field = ''party_data_send''"
    and "map_of (deref h m) field = Some (HMap a)"
    and "map_of (deref h a) ''op_code'' = Some v" and "plain v = Some t"
  shows "map_of (deref (send_heap r) a) ''op_code'' = Some (HStr (Sprintf_v t))"
proof -
  obtain h1 where 1: "handleEncodedData h m ''match_data_send'' = Some h1"
    and 2: "handleEncodedData h1 m ''party_data_send'' = Some (send_heap r)"
    using Send_connected [OF assms(1,2)] by blast
  have o1: "map_of (deref h1 a) ''op_code'' =
      (if map_of (deref h m) ''match_data_send'' = Some (HMap a)
       then Some (HStr (Sprintf_v t)) else Some v)"
    by (simp add: handleEncodedData_lookup [OF 1] assms(5) read_value_plain [OF assms(6)])
  have tgt: "map_of (deref h1 m) ''party_data_send'' = map_of (deref h m) ''party_data_send''"
    by (simp add: handleEncodedData_lookup [OF 1])
  have "map_of (deref (send_heap r) a) ''op_code'' =
      (if map_of (deref h m) ''party_data_send'' = Some (HMap a) then
         (case map_of (deref h1 a) ''op_code'' of
            None \<Rightarrow> None
          | Some v \<Rightarrow> map_option (\<lambda>t. HStr (Sprintf_v t)) (read_value h1 v))
       else map_of (deref h1 a) ''op_code'')"
    by (simp add: handleEncodedData_lookup [OF 2] tgt)
  then show ?thesis
    using assms(3,4) by (auto simp: o1 read_value_plain [OF assms(6)] read_value_HStr)
qed

lemma Send_data:
  assumes "socket w = Some c" and "Send write w h (HMap m) = Some r"
    and "field = ''match_data_send'' \<or> field = ''party_data_send''"
    and "map_of (deref h m) field = Some (HMap a)"
    and "\<not> (map_of (deref h m) ''match_data_send'' = Some (HMap a) \<and>
            map_of (deref h m) ''party_data_send'' = Some (HMap a))"
  shows "map_of (deref (send_heap r) a) ''data'' =
           (case map_of (deref h a) ''data'' of
              Some (HBytes p) \<Rightarrow> Some (HStr (EncodeToString p))
            | Some (HStr s) \<Rightarrow> Some (HStr (EncodeToString (bytes_of s)))
            | other \<Rightarrow> other)"
proof -
  obtain h1 where 1: "handleEncodedData h m ''match_data_send'' = Some h1"
    and 2: "handleEncodedData h1 m ''party_data_send'' = Some (send_heap r)"
    using Send_connected [OF assms(1,2)] by blast
  have tgt: "map_of (deref h1 m) ''party_data_send'' = map_of (deref h m) ''party_data_send''"
    by (simp add: handleEncodedData_lookup [OF 1])
  from assms(3) show ?thesis
  proof
    assume f: "field = ''match_data_send''"
    then have t1: "map_of (deref h m) ''match_data_send'' = Some (HMap a)"
      and t2: "map_of (deref h m) ''party_data_send'' \<noteq> Some (HMap a)"
      using assms(4,5) by auto
    show ?thesis
      by (simp add: handleEncodedData_lookup [OF 2] tgt t2 handleEncodedData_lookup [OF 1] t1
          del: EncodeToString.simps)
  next
    assume f: "field = ''party_data_send''"
    then have t2: "map_of (deref h m) ''party_data_send'' = Some (HMap a)"
      and t1: "map_of (deref h m) ''match_data_send'' \<noteq> Some (HMap a)"
      using assms(4,5) by auto
    show ?thesis
      by (simp add: handleEncodedData_lookup [OF 2] tgt t2 handleEncodedData_lookup [OF 1] t1
          del: EncodeToString.simps)
  qed
qed

lemma Send_data_shared:
  assumes "socket w = Some c" and "Send write w h (HMap m) = Some r"
    and "map_of (deref h m) ''match_data_send'' = Some (HMap a)"
    and "map_of (deref h m) ''party_data_send'' = Some (HMap a)"
    and "map_of (deref h a) ''data'' = Some (HBytes p)"
  shows "map_of (deref (send_heap r) a) ''data'' =
           Some (HStr (EncodeToString (bytes_of (EncodeToString p))))"
proof -
  obtain h1 where 1: "handleEncodedData h m ''match_data_send'' = Some h1"
    and 2: "handleEncodedData h1 m ''party_data_send'' = Some (send_heap r)"
    using Send_connected [OF assms(1,2)] by blast
  have tgt: "map_of (deref h1 m) ''party_data_send'' = Some (HMap a)"
    by (simp add: handleEncodedData_lookup [OF 1] assms(4))
  have d1: "map_of (deref h1 a) ''data'' = Some (HStr (EncodeToString p))"
    by (simp add: handleEncodedData_lookup [OF 1] assms(3,5) del: EncodeToString.simps)
  show ?thesis
    by (simp add: handleEncodedData_lookup [OF 2] tgt d1 del: EncodeToString.simps)
qed

subsection \<open>The frame that \<open>Send\<close> writes and its echo\<close>

lemma Send_wire:
  assumes "socket w = Some c" and "Send write w h (HMap m) = Some r" and "send_err r = None"
    and "map_of (deref (send_heap r) m) k1 = Some (HMap a)"
    and "map_of (deref (send_heap r) a) k2 = Some (HStr s)"
    and "ascii k1" and "ascii k2"
  shows "\<exists>js sub. send_effects r = [Conn_Write c (JObj js)] \<and>
           length (filter (\<lambda>p. fst p = k1) js) \<le> 1 \<and> map_of js k1 = Some (JObj sub) \<and>
           length (filter (\<lambda>p. fst p = k2) sub) \<le> 1 \<and>
           map_of sub k2 = Some (JStr (coerceUTF8 s))"
proof -
  obtain printed doc where p: "snapshot (send_heap r) (Suc (length (send_heap r))) (HMap m) = Some printed"
    and d: "json_Marshal printed = Some doc" and e: "send_effects r = [Conn_Write c doc]"
    using Send_connected [OF assms(1,2)] assms(3) unfolding read_value_def by blast
  obtain n' es y where pr: "printed = GMap es" and d1: "distinct (map fst es)"
    and l1: "map_of es k1 = Some y" and s1: "snapshot (send_heap r) n' (HMap a) = Some y"
    using snapshot_field [OF p assms(4)] by blast
  obtain n'' es' y' where y: "y = GMap es'" and d2: "distinct (map fst es')"
    and l2: "map_of es' k2 = Some y'" and s2: "snapshot (send_heap r) n'' (HStr s) = Some y'"
    using snapshot_field [OF s1 assms(5)] by blast
  have y': "y' = GStr s" using s2 by simp
  have m: "json_Marshal (GMap es) = Some doc" using d by (simp only: pr)
  obtain js where js: "doc = JObj js" using json_Marshal_GMap_D [OF m] by blast
  have "json_Marshal (GMap es) \<noteq> None" using m by (simp del: json_Marshal.simps)
  then have all: "\<forall>v \<in> snd ` set es. json_Marshal v \<noteq> None"
    by (simp only: json_Marshal_GMap_defined)
  have "(k1, GMap es') \<in> set es" using l1 unfolding y by (rule map_of_SomeD)
  then have "json_Marshal (GMap es') \<noteq> None" using all by force
  then obtain dsub where dsub: "json_Marshal (GMap es') = Some dsub" by blast
  obtain sub where sub: "dsub = JObj sub" using json_Marshal_GMap_D [OF dsub] by blast
  have f1: "map_of js k1 = Some (JObj sub)"
    using jfield_json_Marshal [OF m assms(6)]
    by (simp add: js jfield_def l1 y dsub sub del: json_Marshal.simps)
  have f2: "map_of sub k2 = Some (JStr (coerceUTF8 s))"
    using jfield_json_Marshal [OF dsub assms(7)]
    by (simp add: sub jfield_def l2 y')
  have o1: "length (filter (\<lambda>p. fst p = k1) js) \<le> 1"
    using m assms(6) d1 unfolding js by (rule once_json_Marshal)
  have o2: "length (filter (\<lambda>p. fst p = k2) sub) \<le> 1"
    using dsub assms(7) d2 unfolding sub by (rule once_json_Marshal)
  show ?thesis using e js f1 f2 o1 o2 by blast
qed

lemma wire_frames_single: "wire_frames [Conn_Write c doc] = [doc]"
  by (simp add: wire_frames_def)

lemma delivered_single: "delivered [Call_onMessage d] = [d]"
  by (simp add: delivered_def)

text \<open>
  What a successful \<open>Send\<close> puts on the wire for a string that the caller's map holds,
  after the call, under a send kind; and what the message callback gets when that frame
  comes back: the same string.
\<close>

lemma Send_path:
  assumes "socket w = Some c" and "onMessage w"
    and "field = ''match_data_send'' \<or> field = ''party_data_send''"
    and "map_of (deref h m) field = Some (HMap a)"
    and "Send write w h (HMap m) = Some r" and "send_err r = None"
    and "map_of (deref (send_heap r) a) inner = Some (HStr s)" and "ascii inner"
  shows "jpaths (wire_frames (send_effects r)) field inner = [Some (JStr (coerceUTF8 s))]"
    and "jpaths (loopback write w h (HMap m)) field inner = [Some (JStr (coerceUTF8 s))]"
proof -
  have fa: "ascii field" using assms(3) ascii_fields by auto
  have fk: "field \<noteq> ''op_code''" "field \<noteq> ''data''" using assms(3) by auto
  have fi: "field \<noteq> ''match_data''" "field \<noteq> ''party_data''" using assms(3) by auto
  have tgt: "map_of (deref (send_heap r) m) field = Some (HMap a)"
    using Send_keeps_other_keys [OF assms(1,5) fk] assms(4) by simp
  obtain js sub where e: "send_effects r = [Conn_Write c (JObj js)]"
    and o1: "length (filter (\<lambda>p. fst p = field) js) \<le> 1"
    and f1: "map_of js field = Some (JObj sub)"
    and o2: "length (filter (\<lambda>p. fst p = inner) sub) \<le> 1"
    and f2: "map_of sub inner = Some (JStr (coerceUTF8 s))"
    using Send_wire [OF assms(1,5,6) tgt assms(7) fa assms(8)] by blast
  show "jpaths (wire_frames (send_effects r)) field inner = [Some (JStr (coerceUTF8 s))]"
    by (simp add: jpaths_def e wire_frames_single jpath_def jfield_def f1 f2)
  obtain d where d: "listen_frame w (Document (JObj js)) = [Call_onMessage d]"
    and p: "jpath d field inner = Some (JStr (coerceUTF8 (coerceUTF8 s)))"
    using listen_frame_path [OF assms(2) fi fa assms(8) o1 f1 o2 f2] by blast
  have "loopback write w h (HMap m) = [d]"
    by (simp add: loopback_def echo_def assms(5) e wire_frames_single assms(1) d delivered_single)
  then show "jpaths (loopback write w h (HMap m)) field inner = [Some (JStr (coerceUTF8 s))]"
    by (simp add: jpaths_def p coerceUTF8_idem)
qed

subsection \<open>\<open>Send\<close> returns\<close>

lemma those_defined_iff: "those (map f xs) \<noteq> None \<longleftrightarrow> (\<forall>x \<in> set xs. f x \<noteq> None)"
  by (induction xs) (auto split: option.splits)

lemma length_update_ge: "length al \<le> length (AList.update k v al)"
  by (induction al) auto

lemma snapshot_HList_defined:
  "snapshot h n (HList vs) \<noteq> None \<longleftrightarrow> (\<forall>x \<in> set vs. snapshot h n x \<noteq> None)"
  using those_defined_iff [of "snapshot h n" vs] by simp

lemma snapshot_HMap_defined:
  "snapshot h (Suc n) (HMap a) \<noteq> None \<longleftrightarrow>
     (\<forall>kv \<in> set (AList.clearjunk (deref h a)). snapshot h n (snd kv) \<noteq> None)"
proof -
  have "snapshot h (Suc n) (HMap a) \<noteq> None \<longleftrightarrow>
      collect_fields (map (\<lambda>(k, v). (k, snapshot h n v)) (AList.clearjunk (deref h a))) \<noteq> None"
    by simp
  also have "\<dots> \<longleftrightarrow>
      (\<forall>r \<in> snd ` set (map (\<lambda>(k, v). (k, snapshot h n v)) (AList.clearjunk (deref h a))).
         r \<noteq> None)"
    by (simp only: collect_defined)
  also have "\<dots> \<longleftrightarrow>
      (\<forall>kv \<in> set (AList.clearjunk (deref h a)). snapshot h n (snd kv) \<noteq> None)"
    by (force simp: case_prod_unfold)
  finally show ?thesis .
qed

lemma snapshot_defined_mono:
  "snapshot h n v \<noteq> None \<Longrightarrow> n \<le> n' \<Longrightarrow> snapshot h n' v \<noteq> None"
proof (induction h n v arbitrary: n' rule: snapshot.induct)
  case (6 h n vs)
  have "\<forall>x \<in> set vs. snapshot h n x \<noteq> None"
    using "6.prems"(1) by (simp only: snapshot_HList_defined)
  then have "\<forall>x \<in> set vs. snapshot h n' x \<noteq> None"
    using "6.IH" "6.prems"(2) by blast
  then show ?case by (simp only: snapshot_HList_defined)
next
  case (7 h a)
  then show ?case by simp
next
  case (8 h n a)
  obtain m' where n': "n' = Suc m'" and le: "n \<le> m'"
    using "8.prems"(2) by (cases n') auto
  have d: "\<forall>kv \<in> set (AList.clearjunk (deref h a)). snapshot h n (snd kv) \<noteq> None"
    using "8.prems"(1) by (simp only: snapshot_HMap_defined)
  have "\<forall>kv \<in> set (AList.clearjunk (deref h a)). snapshot h m' (snd kv) \<noteq> None"
  proof
    fix kv assume kv: "kv \<in> set (AList.clearjunk (deref h a))"
    obtain k v where e: "kv = (k, v)" by (cases kv)
    have "snapshot h n v \<noteq> None" using d kv e by auto
    moreover have "(k, v) \<in> set (AList.clearjunk (deref h a))" using kv e by simp
    ultimately show "snapshot h m' (snd kv) \<noteq> None"
      using "8.IH" [of "(k, v)" k v m'] le e by simp
  qed
  then show ?case unfolding n' by (simp only: snapshot_HMap_defined)
qed simp_all

text \<open>Writing a string into a map: what could be walked before can be walked after.\<close>

lemma snapshot_defined_assign:
  "snapshot h n v \<noteq> None \<Longrightarrow> snapshot (assign h a k (HStr s)) n v \<noteq> None"
proof (induction "assign h a k (HStr s)" n v rule: snapshot.induct)
  case (6 n vs)
  have "\<forall>x \<in> set vs. snapshot h n x \<noteq> None"
    using "6.prems" by (simp only: snapshot_HList_defined)
  then have "\<forall>x \<in> set vs. snapshot (assign h a k (HStr s)) n x \<noteq> None"
    using "6.hyps" by blast
  then show ?case by (simp only: snapshot_HList_defined)
next
  case (7 b)
  then show ?case by simp
next
  case (8 n b)
  have d: "\<forall>kv \<in> set (AList.clearjunk (deref h b)). snapshot h n (snd kv) \<noteq> None"
    using "8.prems" by (simp only: snapshot_HMap_defined)
  have sub: "set (AList.clearjunk (deref (assign h a k (HStr s)) b)) \<subseteq>
      insert (k, HStr s) (set (AList.clearjunk (deref h b)))"
  proof (cases "b = a")
    case True
    then show ?thesis
      using set_update_subset [of k "HStr s" "AList.clearjunk (deref h a)"]
      by (simp add: deref_assign clearjunk_update)
  next
    case False
    then show ?thesis by (auto simp: deref_assign)
  qed
  have "\<forall>kv \<in> set (AList.clearjunk (deref (assign h a k (HStr s)) b)).
      snapshot (assign h a k (HStr s)) n (snd kv) \<noteq> None"
  proof
    fix kv assume kv: "kv \<in> set (AList.clearjunk (deref (assign h a k (HStr s)) b))"
    obtain k' v where e: "kv = (k', v)" by (cases kv)
    show "snapshot (assign h a k (HStr s)) n (snd kv) \<noteq> None"
    proof (cases "kv = (k, HStr s)")
      case True
      then show ?thesis by simp
    next
      case False
      then have "kv \<in> set (AList.clearjunk (deref h b))" using kv sub by blast
      then have "snapshot h n v \<noteq> None" using d e by auto
      then show ?thesis using "8.hyps" [of "(k', v)" k' v] kv e by simp
    qed
  qed
  then show ?case by (simp only: snapshot_HMap_defined)
qed simp_all

lemma read_value_assign:
  assumes "read_value h v \<noteq> None"
  shows "read_value (assign h a k (HStr s)) v \<noteq> None"
proof -
  have "snapshot (assign h a k (HStr s)) (Suc (length h)) v \<noteq> None"
    using assms unfolding read_value_def by (rule snapshot_defined_assign)
  moreover have "Suc (length h) \<le> Suc (length (assign h a k (HStr s)))"
    by (simp add: assign_def length_update_ge)
  ultimately show ?thesis unfolding read_value_def by (rule snapshot_defined_mono)
qed

lemma read_value_reach:
  assumes "read_value h (HMap m) \<noteq> None"
    and "map_of (deref h m) k1 = Some (HMap a)" and "map_of (deref h a) k2 = Some v"
  shows "read_value h v \<noteq> None"
proof -
  obtain t where t: "snapshot h (Suc (length h)) (HMap m) = Some t"
    using assms(1) unfolding read_value_def by blast
  obtain n' y where n': "Suc (length h) = Suc n'" and y: "snapshot h n' (HMap a) = Some y"
    using snapshot_field [OF t assms(2)] by blast
  obtain n'' y' where n'': "n' = Suc n''" and y': "snapshot h n'' v = Some y'"
    using snapshot_field [OF y assms(3)] by blast
  have "snapshot h n'' v \<noteq> None" using y' by simp
  moreover have "n'' \<le> Suc (length h)" using n' n'' by simp
  ultimately show ?thesis unfolding read_value_def by (rule snapshot_defined_mono)
qed

lemma handleEncodedData_returns:
  assumes "read_value h (HMap m) \<noteq> None"
  shows "\<exists>h'. handleEncodedData h m field = Some h' \<and> read_value h' (HMap m) \<noteq> None"
proof (cases "\<exists>a. map_of (deref h m) field = Some (HMap a)")
  case False
  then show ?thesis using assms handleEncodedData_not_map [of h m field] by simp
next
  case True
  then obtain a where a: "map_of (deref h m) field = Some (HMap a)" by blast
  have "\<exists>h1. (case map_of (deref h a) ''op_code'' of
                 Some opCode \<Rightarrow>
                   map_option (\<lambda>t. assign h a ''op_code'' (HStr (Sprintf_v t)))
                     (read_value h opCode)
               | None \<Rightarrow> Some h) = Some h1 \<and> read_value h1 (HMap m) \<noteq> None"
  proof (cases "map_of (deref h a) ''op_code''")
    case None
    then show ?thesis using assms by simp
  next
    case (Some opCode)
    obtain t where t: "read_value h opCode = Some t"
      using read_value_reach [OF assms a Some] by blast
    show ?thesis using read_value_assign [OF assms] by (simp add: Some t)
  qed
  then obtain h1 where s1: "(case map_of (deref h a) ''op_code'' of
                 Some opCode \<Rightarrow>
                   map_option (\<lambda>t. assign h a ''op_code'' (HStr (Sprintf_v t)))
                     (read_value h opCode)
               | None \<Rightarrow> Some h) = Some h1" and r1: "read_value h1 (HMap m) \<noteq> None"
    by blast
  define h' where "h' = (case map_of (deref h1 a) ''data'' of
                       Some (HBytes v) \<Rightarrow> assign h1 a ''data'' (HStr (EncodeToString v))
                     | Some (HStr v) \<Rightarrow>
                         assign h1 a ''data'' (HStr (EncodeToString (bytes_of v)))
                     | _ \<Rightarrow> h1)"
  have "read_value h' (HMap m) \<noteq> None"
    unfolding h'_def using r1 read_value_assign [OF r1]
    by (simp del: EncodeToString.simps split: option.splits hval.splits)
  moreover have "handleEncodedData h m field = Some h'"
    by (simp add: handleEncodedData_def a s1 h'_def)
  ultimately show ?thesis by blast
qed

text \<open>\<open>Send\<close> returns for every message that can be printed.\<close>

lemma Send_returns:
  assumes "socket w = Some c" and "read_value h (HMap m) \<noteq> None"
  shows "\<exists>r. Send write w h (HMap m) = Some r"
proof -
  obtain h1 where 1: "handleEncodedData h m ''match_data_send'' = Some h1"
    and r1: "read_value h1 (HMap m) \<noteq> None"
    using handleEncodedData_returns [OF assms(2)] by blast
  obtain h2 where 2: "handleEncodedData h1 m ''party_data_send'' = Some h2"
    and r2: "read_value h2 (HMap m) \<noteq> None"
    using handleEncodedData_returns [OF r1] by blast
  obtain printed where p: "read_value h2 (HMap m) = Some printed" using r2 by blast
  show ?thesis
    by (cases "json_Marshal printed")
      (simp_all add: Send_def assms(1) 1 2 p del: json_Marshal.simps)
qed

lemma Send_op_code_absent:
  assumes "socket w = Some c" and "Send write w h (HMap m) = Some r"
    and "map_of (deref h a) ''op_code'' = None"
  shows "map_of (deref (send_heap r) a) ''op_code'' = None"
proof -
  obtain h1 where 1: "handleEncodedData h m ''match_data_send'' = Some h1"
    and 2: "handleEncodedData h1 m ''party_data_send'' = Some (send_heap r)"
    using Send_connected [OF assms(1,2)] by blast
  have "map_of (deref h1 a) ''op_code'' = None"
    by (simp add: handleEncodedData_lookup [OF 1] assms(3))
  then show ?thesis by (simp add: handleEncodedData_lookup [OF 2])
qed

subsection \<open>Sample runs\<close>

lemma scenario_b64: "EncodeToString [0xDE, 0xAD, 0xBE, 0xEF] = ''3q2+7w==''"
  by (simp add: encodeStd_def) code_simp

lemma scenario_fmt: "FormatInt 7 = ''7''"
  by code_simp


lemma twice_b64: "EncodeToString (bytes_of ''3q2+7w=='') = ''M3EyKzd3PT0=''"
  by (simp add: encodeStd_def bytes_of_def) code_simp


lemma scenario_decode: "DecodeString ''3q2+7w=='' = Some [0xDE, 0xAD, 0xBE, 0xEF]"
  using DecodeString_EncodeToString [of "[0xDE, 0xAD, 0xBE, 0xEF]"] by (simp only: scenario_b64)

lemma scenario_send:
  "Send write_succeeds connected_adapter scenario_heap scenario_envelope =
     Some \<lparr>send_err = None, send_adapter = connected_adapter,
           send_heap =
             [(0, [(''match_data_send'', HMap 1)]),
              (1, [(''op_code'', HStr ''7''), (''data'', HStr ''3q2+7w=='')])],
           send_effects =
             [Conn_Write 1
                (JObj [(''match_data_send'',
                        JObj [(''data'', JStr ''3q2+7w==''), (''op_code'', JStr ''7'')])])]\<rparr>"
  by (simp add: Send_def connected_adapter_def scenario_heap_def scenario_envelope_def
      write_succeeds_def handleEncodedData_def read_value_def deref_def assign_def
      collect_fields_def scenario_b64 scenario_fmt rune_tail_ascii
      del: EncodeToString.simps)

lemma scenario_send_fails:
  "Send write_fails connected_adapter scenario_heap scenario_envelope =
     Some \<lparr>send_err = Some (ErrWrite ''broken pipe''), send_adapter = connected_adapter,
           send_heap =
             [(0, [(''match_data_send'', HMap 1)]),
              (1, [(''op_code'', HStr ''7''), (''data'', HStr ''3q2+7w=='')])],
           send_effects =
             [Conn_Write 1
                (JObj [(''match_data_send'',
                        JObj [(''data'', JStr ''3q2+7w==''), (''op_code'', JStr ''7'')])])]\<rparr>"
  by (simp add: Send_def connected_adapter_def scenario_heap_def scenario_envelope_def
      write_fails_def handleEncodedData_def read_value_def deref_def assign_def
      collect_fields_def scenario_b64 scenario_fmt rune_tail_ascii
      del: EncodeToString.simps)


text \<open>
  One map under both send kinds: the second call of \<open>handleEncodedData\<close> finds the
  \<open>data\<close> that the first call has encoded, a string, and encodes it again. The op code is
  a string by then and prints as itself.
\<close>

lemma shared_map_is_encoded_twice:
  "Send write_succeeds connected_adapter shared_heap shared_envelope =
     Some \<lparr>send_err = None, send_adapter = connected_adapter,
           send_heap =
             [(0, [(''match_data_send'', HMap 1), (''party_data_send'', HMap 1)]),
              (1, [(''op_code'', HStr ''7''), (''data'', HStr ''M3EyKzd3PT0='')])],
           send_effects =
             [Conn_Write 1
                (JObj [(''match_data_send'',
                        JObj [(''data'', JStr ''M3EyKzd3PT0=''), (''op_code'', JStr ''7'')]),
                       (''party_data_send'',
                        JObj [(''data'', JStr ''M3EyKzd3PT0=''), (''op_code'', JStr ''7'')])])]\<rparr>"
  by (simp add: Send_def connected_adapter_def shared_heap_def shared_envelope_def
      write_succeeds_def handleEncodedData_def read_value_def deref_def assign_def
      collect_fields_def scenario_b64 twice_b64 scenario_fmt rune_tail_ascii
      del: EncodeToString.simps)

text \<open>An op code given as a string that is not UTF-8 goes on the wire as U+FFFD.\<close>

lemma invalid_op_code_is_coerced:
  "Send write_succeeds connected_adapter
     [(0, [(''match_data_send'', HMap 1)]), (1, [(''op_code'', HStr [CHR 0xFF])])] (HMap 0) =
     Some \<lparr>send_err = None, send_adapter = connected_adapter,
           send_heap =
             [(0, [(''match_data_send'', HMap 1)]), (1, [(''op_code'', HStr [CHR 0xFF])])],
           send_effects =
             [Conn_Write 1
                (JObj [(''match_data_send'',
                        JObj [(''op_code'', JStr [CHR 0xEF, CHR 0xBF, CHR 0xBD])])])]\<rparr>"
  by (simp add: Send_def connected_adapter_def write_succeeds_def handleEncodedData_def
      read_value_def deref_def assign_def collect_fields_def rune_tail_ascii rune_tail_def
      first_def replacement_def)

text \<open>A map that holds itself: the print of the message does not return.\<close>

lemma cyclic_envelope_never_returns:
  "Send write_succeeds connected_adapter [(0, [(''match_data_send'', HMap 0)])] (HMap 0) = None"
  by (simp add: Send_def connected_adapter_def handleEncodedData_def read_value_def deref_def
      assign_def collect_fields_def)

lemma scenario_exact:
  "decodes_exactly
     (JObj [(''match_data_send'',
             JObj [(''data'', JStr ''3q2+7w==''), (''op_code'', JStr ''7'')])])"
  "decodes_exactly
     (JObj [(''party_data_send'',
             JObj [(''data'', JStr ''aGk=''), (''op_code'', JStr ''12''),
                   (''party_id'', JStr ''p1'')])])"
  by (simp_all add: decodes_exactly_def)

lemma sample_lookups:
  "socket connected_adapter = Some 1" "onMessage connected_adapter"
  "scenario_envelope = HMap 0" "text_envelope = HMap 0" "shared_envelope = HMap 0"
  "map_of (deref scenario_heap 0) ''match_data_send'' = Some (HMap 1)"
  "map_of (deref scenario_heap 0) ''party_data_send'' = None"
  "map_of (deref scenario_heap 1) ''op_code'' = Some (HInt 7)"
  "map_of (deref scenario_heap 1) ''data'' = Some (HBytes [0xDE, 0xAD, 0xBE, 0xEF])"
  "map_of (deref text_heap 0) ''party_data_send'' = Some (HMap 1)"
  "map_of (deref text_heap 1) ''op_code'' = Some (HStr ''12'')"
  "map_of (deref shared_heap 0) ''match_data_send'' = Some (HMap 1)"
  "map_of (deref shared_heap 0) ''party_data_send'' = Some (HMap 1)"
  "map_of (deref shared_heap 1) ''data'' = Some (HBytes [0xDE, 0xAD, 0xBE, 0xEF])"
  by (simp_all add: connected_adapter_def scenario_envelope_def text_envelope_def
      shared_envelope_def scenario_heap_def text_heap_def shared_heap_def deref_def)

text \<open>
  What the message callback gets for an inbound \<open>match_data\<close> frame: the loop decodes
  the payload into bytes and then marshals the map again, which prints the bytes as
  base64 once more.
\<close>

lemma inbound_data_is_delivered_as_base64:
  "listen connected_adapter
     [Received (Document (JObj [(''match_data'', JObj [(''data'', JStr ''3q2+7w=='')])]))] =
   (connected_adapter,
    [Call_onMessage (JObj [(''match_data'', JObj [(''data'', JStr ''3q2+7w=='')])])],
    Blocked)"
  by (simp add: connected_adapter_def listen_frame_def Unmarshal_map_def Marshal_map_def
      store_members_def decodeReceivedData_def scenario_decode scenario_b64 collect_fields_def
      rune_tail_ascii del: EncodeToString.simps)

lemma sample_prints:
  "read_value scenario_heap (HMap 0) =
     Some (GMap [(''match_data_send'',
                  GMap [(''op_code'', GInt 7), (''data'', GBytes [0xDE, 0xAD, 0xBE, 0xEF])])])"
  "read_value text_heap (HMap 0) =
     Some (GMap [(''party_data_send'',
                  GMap [(''party_id'', GStr ''p1''), (''op_code'', GStr ''12''),
                        (''data'', GStr ''hi'')])])"
  "read_value shared_heap (HMap 0) =
     Some (GMap [(''match_data_send'',
                  GMap [(''op_code'', GInt 7), (''data'', GBytes [0xDE, 0xAD, 0xBE, 0xEF])]),
                 (''party_data_send'',
                  GMap [(''op_code'', GInt 7), (''data'', GBytes [0xDE, 0xAD, 0xBE, 0xEF])])])"
  by (simp_all add: read_value_def scenario_heap_def text_heap_def shared_heap_def deref_def
      collect_fields_def)

subsection \<open>In-place encoding by \<open>Send\<close>\<close>

text \<open>
  C10, as stated: after \<open>Send\<close> returns, the caller's map holds the string forms. Not
  when no handle is held: \<open>Send\<close> then returns before it touches the envelope, and the
  map under \<open>match_data_send\<close> still holds op code 7 as a number and the four bytes.
\<close>

theorem Send_unconnected_leaves_envelope_counterexample:
  "Send write_succeeds NewWebSocketAdapter scenario_heap scenario_envelope =
     Some \<lparr>send_err = Some ErrNotConnected, send_adapter = NewWebSocketAdapter,
           send_heap = scenario_heap, send_effects = []\<rparr> \<and>
   map_of (deref scenario_heap 0) ''match_data_send'' = Some (HMap 1) \<and>
   map_of (deref scenario_heap 1) ''op_code'' = Some (HInt 7) \<and>
   map_of (deref scenario_heap 1) ''data'' = Some (HBytes [0xDE, 0xAD, 0xBE, 0xEF])"
  by (simp add: Send_def NewWebSocketAdapter_def scenario_heap_def deref_def)

text \<open>
  C10, amended. Let a handle be held, let the message be a map that can be printed (no
  map in it holds itself), and let the value under \<open>match_data_send\<close> or
  \<open>party_data_send\<close> be a map \<open>a\<close>. Then \<open>Send\<close> returns, and whatever the outcome of
  the marshalling and of the write, the caller's map still holds \<open>a\<close> under that key,
  and in \<open>a\<close>
  \<^item> an \<open>op_code\<close> whose value holds no map is replaced by its \<open>%v\<close> string, and there
    is still no \<open>op_code\<close> if there was none;
  \<^item> the \<open>data\<close>, if it is a byte slice or a string, is replaced by its base64 string,
    and a \<open>data\<close> of another type is left as it is, provided that \<open>a\<close> is not the value
    under both send kinds;
  \<^item> if \<open>a\<close> is the value under both send kinds, a \<open>data\<close> that is a byte slice is
    encoded twice: it is replaced by the base64 string of its base64 string;
  \<^item> every other entry is as it was.
\<close>

theorem Send_encodes_in_place:
  assumes "socket w = Some c"
    and "field = ''match_data_send'' \<or> field = ''party_data_send''"
    and "map_of (deref h m) field = Some (HMap a)"
    and "read_value h (HMap m) \<noteq> None"
  shows "\<exists>r. Send wr w h (HMap m) = Some r \<and>
         map_of (deref (send_heap r) m) field = Some (HMap a) \<and>
         (map_of (deref h a) ''op_code'' = Some v \<and> plain v = Some t \<longrightarrow>
            map_of (deref (send_heap r) a) ''op_code'' = Some (HStr (Sprintf_v t))) \<and>
         (map_of (deref h a) ''op_code'' = None \<longrightarrow>
            map_of (deref (send_heap r) a) ''op_code'' = None) \<and>
         (\<not> (map_of (deref h m) ''match_data_send'' = Some (HMap a) \<and>
             map_of (deref h m) ''party_data_send'' = Some (HMap a)) \<longrightarrow>
            map_of (deref (send_heap r) a) ''data'' =
              (case map_of (deref h a) ''data'' of
                 Some (HBytes p) \<Rightarrow> Some (HStr (EncodeToString p))
               | Some (HStr s) \<Rightarrow> Some (HStr (EncodeToString (bytes_of s)))
               | other \<Rightarrow> other)) \<and>
         (map_of (deref h m) ''match_data_send'' = Some (HMap a) \<and>
          map_of (deref h m) ''party_data_send'' = Some (HMap a) \<and>
          map_of (deref h a) ''data'' = Some (HBytes q) \<longrightarrow>
            map_of (deref (send_heap r) a) ''data'' =
              Some (HStr (EncodeToString (bytes_of (EncodeToString q))))) \<and>
         (k \<noteq> ''op_code'' \<and> k \<noteq> ''data'' \<longrightarrow>
            map_of (deref (send_heap r) a) k = map_of (deref h a) k)"
proof -
  obtain r where r: "Send wr w h (HMap m) = Some r"
    using Send_returns [OF assms(1,4)] by blast
  have fk: "field \<noteq> ''op_code''" "field \<noteq> ''data''" using assms(2) by auto
  show ?thesis
  proof (intro exI [of _ r] conjI impI)
    show "Send wr w h (HMap m) = Some r" by (fact r)
    show "map_of (deref (send_heap r) m) field = Some (HMap a)"
      using Send_keeps_other_keys [OF assms(1) r fk] assms(3) by simp
    show "map_of (deref (send_heap r) a) ''op_code'' = Some (HStr (Sprintf_v t))"
      if "map_of (deref h a) ''op_code'' = Some v \<and> plain v = Some t"
      using Send_op_code [OF assms(1) r assms(2,3)] that by blast
    show "map_of (deref (send_heap r) a) ''op_code'' = None"
      if "map_of (deref h a) ''op_code'' = None"
      using Send_op_code_absent [OF assms(1) r that] .
    show "map_of (deref (send_heap r) a) ''data'' =
              (case map_of (deref h a) ''data'' of
                 Some (HBytes p) \<Rightarrow> Some (HStr (EncodeToString p))
               | Some (HStr s) \<Rightarrow> Some (HStr (EncodeToString (bytes_of s)))
               | other \<Rightarrow> other)"
      if "\<not> (map_of (deref h m) ''match_data_send'' = Some (HMap a) \<and>
             map_of (deref h m) ''party_data_send'' = Some (HMap a))"
      using Send_data [OF assms(1) r assms(2,3) that] .
    show "map_of (deref (send_heap r) a) ''data'' =
              Some (HStr (EncodeToString (bytes_of (EncodeToString q))))"
      if "map_of (deref h m) ''match_data_send'' = Some (HMap a) \<and>
          map_of (deref h m) ''party_data_send'' = Some (HMap a) \<and>
          map_of (deref h a) ''data'' = Some (HBytes q)"
      using Send_data_shared [OF assms(1) r] that by blast
    show "map_of (deref (send_heap r) a) k = map_of (deref h a) k"
      if "k \<noteq> ''op_code'' \<and> k \<noteq> ''data''"
      using Send_keeps_other_keys [OF assms(1) r] that by blast
  qed
qed

theorem Send_encodes_in_place_witness:
  "socket connected_adapter = Some 1 \<and>
   map_of (deref scenario_heap 0) ''match_data_send'' = Some (HMap 1) \<and>
   map_of (deref scenario_heap 0) ''party_data_send'' = None \<and>
   map_of (deref scenario_heap 1) ''op_code'' = Some (HInt 7) \<and>
   map_of (deref scenario_heap 1) ''data'' = Some (HBytes [0xDE, 0xAD, 0xBE, 0xEF]) \<and>
   read_value scenario_heap (HMap 0) =
     Some (GMap [(''match_data_send'',
                  GMap [(''op_code'', GInt 7), (''data'', GBytes [0xDE, 0xAD, 0xBE, 0xEF])])]) \<and>
   Send write_fails connected_adapter scenario_heap (HMap 0) =
     Some \<lparr>send_err = Some (ErrWrite ''broken pipe''), send_adapter = connected_adapter,
           send_heap =
             [(0, [(''match_data_send'', HMap 1)]),
              (1, [(''op_code'', HStr ''7''), (''data'', HStr ''3q2+7w=='')])],
           send_effects =
             [Conn_Write 1
                (JObj [(''match_data_send'',
                        JObj [(''data'', JStr ''3q2+7w==''), (''op_code'', JStr ''7'')])])]\<rparr> \<and>
   map_of (deref [(0, [(''match_data_send'', HMap 1)]),
                  (1, [(''op_code'', HStr ''7''), (''data'', HStr ''3q2+7w=='')])] 0)
     ''match_data_send'' = Some (HMap 1) \<and>
   map_of (deref [(0, [(''match_data_send'', HMap 1)]),
                  (1, [(''op_code'', HStr ''7''), (''data'', HStr ''3q2+7w=='')])] 1)
     ''op_code'' = Some (HStr ''7'') \<and>
   map_of (deref [(0, [(''match_data_send'', HMap 1)]),
                  (1, [(''op_code'', HStr ''7''), (''data'', HStr ''3q2+7w=='')])] 1)
     ''data'' = Some (HStr ''3q2+7w=='') \<and>
   map_of (deref shared_heap 0) ''match_data_send'' = Some (HMap 1) \<and>
   map_of (deref shared_heap 0) ''party_data_send'' = Some (HMap 1) \<and>
   map_of (deref shared_heap 1) ''data'' = Some (HBytes [0xDE, 0xAD, 0xBE, 0xEF]) \<and>
   Send write_succeeds connected_adapter shared_heap (HMap 0) =
     Some \<lparr>send_err = None, send_adapter = connected_adapter,
           send_heap =
             [(0, [(''match_data_send'', HMap 1), (''party_data_send'', HMap 1)]),
              (1, [(''op_code'', HStr ''7''), (''data'', HStr ''M3EyKzd3PT0='')])],
           send_effects =
             [Conn_Write 1
                (JObj [(''match_data_send'',
                        JObj [(''data'', JStr ''M3EyKzd3PT0=''), (''op_code'', JStr ''7'')]),
                       (''party_data_send'',
                        JObj [(''data'', JStr ''M3EyKzd3PT0=''), (''op_code'', JStr ''7'')])])]\<rparr> \<and>
   map_of (deref [(0, [(''match_data_send'', HMap 1), (''party_data_send'', HMap 1)]),
                  (1, [(''op_code'', HStr ''7''), (''data'', HStr ''M3EyKzd3PT0='')])] 1)
     ''data'' = Some (HStr ''M3EyKzd3PT0='')"
proof -
  note s = scenario_send_fails [unfolded sample_lookups(3)]
  note sh = shared_map_is_encoded_twice [unfolded sample_lookups(5)]
  have pl: "plain (HInt 7) = Some (GInt 7)" by simp
  have p1: "read_value scenario_heap (HMap 0) \<noteq> None" by (simp add: sample_prints(1))
  have p2: "read_value shared_heap (HMap 0) \<noteq> None" by (simp add: sample_prints(3))
  show ?thesis
    using sample_lookups(1,6,7,8,9,12,13,14) sample_prints(1) s sh
      Send_encodes_in_place [where field = "''match_data_send''" and v = "HInt 7"
        and t = "GInt 7" and q = "[]" and k = "''party_id''" and wr = write_fails,
        OF sample_lookups(1) _ sample_lookups(6) p1]
      Send_encodes_in_place [where field = "''party_data_send''" and v = "HInt 7"
        and t = "GInt 7" and q = "[0xDE, 0xAD, 0xBE, 0xEF]" and k = "''party_id''"
        and wr = write_succeeds,
        OF sample_lookups(1) _ sample_lookups(13) p2]
    by (simp add: pl scenario_b64 twice_b64 scenario_fmt del: EncodeToString.simps)
qed

subsection \<open>Payload and op code on the wire and back\<close>

text \<open>
  C1, as the spec has it: on a loopback echo the payload arrives at the message callback
  as exactly the bytes that were sent. It does not: for the payload DE AD BE EF the
  callback gets the \<open>data\<close> field as the eight characters \<open>3q2+7w==\<close>, which are not
  those four bytes.
\<close>

theorem loopback_delivers_base64_counterexample:
  "jpaths (loopback write_succeeds connected_adapter scenario_heap scenario_envelope)
     ''match_data_send'' ''data'' = [Some (JStr ''3q2+7w=='')] \<and>
   bytes_of ''3q2+7w=='' \<noteq> [0xDE, 0xAD, 0xBE, 0xEF]"
proof -
  have "loopback write_succeeds connected_adapter scenario_heap scenario_envelope =
      echo connected_adapter
        [Conn_Write 1
           (JObj [(''match_data_send'',
                   JObj [(''data'', JStr ''3q2+7w==''), (''op_code'', JStr ''7'')])])]"
    by (simp add: loopback_def scenario_send)
  then have "jpaths (loopback write_succeeds connected_adapter scenario_heap scenario_envelope)
      ''match_data_send'' ''data'' = [Some (JStr ''3q2+7w=='')]"
    by (simp add: echo_def wire_frames_def delivered_def jpaths_def
        jpath_def jfield_def connected_adapter_def listen_frame_def Unmarshal_map_def
        Marshal_map_def store_members_def decodeReceivedData_def collect_fields_def
        rune_tail_ascii)
  moreover have "bytes_of ''3q2+7w=='' \<noteq> [0xDE, 0xAD, 0xBE, 0xEF]"
    by (simp add: bytes_of_def)
  ultimately show ?thesis by blast
qed

text \<open>
  C1, amended. Let a handle be held and a message callback be registered, let the
  message be a map that can be printed, let the value under \<open>match_data_send\<close> or
  \<open>party_data_send\<close> be a map that is not the value under both of them, and let its
  \<open>data\<close> be the byte sequence \<open>p\<close>. Then \<open>Send\<close> returns, and if it returns no error, the
  frame on the wire carries the base64 text of \<open>p\<close>, and on a loopback echo of a frame
  that the decoder reads exactly the message callback gets that same text (the receive
  loop does not decode the send kinds). Decoding the text with \<open>DecodeString\<close> gives back
  exactly \<open>p\<close>, and \<open>decodeReceivedData\<close> puts exactly \<open>p\<close> into the decoded map of an
  inbound envelope that carries the text under the field it is called for (the loop
  calls it for \<open>match_data\<close> and \<open>party_data\<close>).
\<close>

theorem payload_round_trip:
  assumes "socket w = Some c" and "onMessage w"
    and "field = ''match_data_send'' \<or> field = ''party_data_send''"
    and "map_of (deref h m) field = Some (HMap a)"
    and "\<not> (map_of (deref h m) ''match_data_send'' = Some (HMap a) \<and>
            map_of (deref h m) ''party_data_send'' = Some (HMap a))"
    and "map_of (deref h a) ''data'' = Some (HBytes p)"
    and "read_value h (HMap m) \<noteq> None"
  shows "\<exists>r. Send wr w h (HMap m) = Some r \<and>
         (send_err r = None \<longrightarrow>
            jpaths (wire_frames (send_effects r)) field ''data'' =
              [Some (JStr (EncodeToString p))] \<and>
            (list_all decodes_exactly (wire_frames (send_effects r)) \<longrightarrow>
               jpaths (loopback wr w h (HMap m)) field ''data'' =
                 [Some (JStr (EncodeToString p))])) \<and>
         DecodeString (EncodeToString p) = Some p \<and>
         (map_of inbound rfield = Some (GMap dataMap) \<and>
          map_of dataMap ''data'' = Some (GStr (EncodeToString p)) \<longrightarrow>
            gpath (GMap (decodeReceivedData inbound rfield)) rfield ''data'' = Some (GBytes p))"
proof -
  obtain r where r: "Send wr w h (HMap m) = Some r"
    using Send_returns [OF assms(1,7)] by blast
  have d: "map_of (deref (send_heap r) a) ''data'' = Some (HStr (EncodeToString p))"
    using Send_data [OF assms(1) r assms(3,4,5)] by (simp add: assms(6) del: EncodeToString.simps)
  have c: "coerceUTF8 (EncodeToString p) = EncodeToString p"
    by (rule coerceUTF8_ascii [OF ascii_EncodeToString])
  have "jpaths (wire_frames (send_effects r)) field ''data'' = [Some (JStr (EncodeToString p))] \<and>
      jpaths (loopback wr w h (HMap m)) field ''data'' = [Some (JStr (EncodeToString p))]"
    if "send_err r = None"
    using Send_path [OF assms(1,2,3,4) r that d ascii_fields(4)] by (simp only: c)
  then show ?thesis
    using r by (simp add: DecodeString_EncodeToString gpath_decodeReceivedData
        del: EncodeToString.simps)
qed

theorem payload_round_trip_witness:
  "socket connected_adapter = Some 1 \<and> onMessage connected_adapter \<and>
   map_of (deref scenario_heap 0) ''match_data_send'' = Some (HMap 1) \<and>
   map_of (deref scenario_heap 0) ''party_data_send'' = None \<and>
   map_of (deref scenario_heap 1) ''data'' = Some (HBytes [0xDE, 0xAD, 0xBE, 0xEF]) \<and>
   read_value scenario_heap (HMap 0) =
     Some (GMap [(''match_data_send'',
                  GMap [(''op_code'', GInt 7), (''data'', GBytes [0xDE, 0xAD, 0xBE, 0xEF])])]) \<and>
   Send write_succeeds connected_adapter scenario_heap (HMap 0) =
     Some \<lparr>send_err = None, send_adapter = connected_adapter,
           send_heap =
             [(0, [(''match_data_send'', HMap 1)]),
              (1, [(''op_code'', HStr ''7''), (''data'', HStr ''3q2+7w=='')])],
           send_effects =
             [Conn_Write 1
                (JObj [(''match_data_send'',
                        JObj [(''data'', JStr ''3q2+7w==''), (''op_code'', JStr ''7'')])])]\<rparr> \<and>
   decodes_exactly
     (JObj [(''match_data_send'',
             JObj [(''data'', JStr ''3q2+7w==''), (''op_code'', JStr ''7'')])]) \<and>
   jpaths [JObj [(''match_data_send'',
                  JObj [(''data'', JStr ''3q2+7w==''), (''op_code'', JStr ''7'')])]]
     ''match_data_send'' ''data'' = [Some (JStr ''3q2+7w=='')] \<and>
   jpaths (loopback write_succeeds connected_adapter scenario_heap (HMap 0)) ''match_data_send''
     ''data'' = [Some (JStr ''3q2+7w=='')] \<and>
   DecodeString ''3q2+7w=='' = Some [0xDE, 0xAD, 0xBE, 0xEF] \<and>
   gpath (GMap (decodeReceivedData [(''match_data'', GMap [(''data'', GStr ''3q2+7w=='')])]
     ''match_data'')) ''match_data'' ''data'' = Some (GBytes [0xDE, 0xAD, 0xBE, 0xEF])"
proof -
  note s = scenario_send [unfolded sample_lookups(3)]
  have na: "\<not> (map_of (deref scenario_heap 0) ''match_data_send'' = Some (HMap 1) \<and>
            map_of (deref scenario_heap 0) ''party_data_send'' = Some (HMap 1))"
    by (simp add: sample_lookups(7))
  have p1: "read_value scenario_heap (HMap 0) \<noteq> None" by (simp add: sample_prints(1))
  have i: "map_of [(''match_data'', GMap [(''data'', GStr ''3q2+7w=='')])] ''match_data'' =
      Some (GMap [(''data'', GStr ''3q2+7w=='')])" by simp
  have j: "map_of [(''data'', GStr ''3q2+7w=='')] ''data'' = Some (GStr ''3q2+7w=='')" by simp
  show ?thesis
    using sample_lookups(1,2,6,7,9) sample_prints(1) s scenario_exact(1) i j
      payload_round_trip [where field = "''match_data_send''"
        and inbound = "[(''match_data'', GMap [(''data'', GStr ''3q2+7w=='')])]"
        and rfield = "''match_data''" and dataMap = "[(''data'', GStr ''3q2+7w=='')]"
        and wr = write_succeeds,
        OF sample_lookups(1,2) _ sample_lookups(6) na sample_lookups(9) p1]
    by (simp add: scenario_b64 wire_frames_single del: EncodeToString.simps)
qed



end
